theory Spec2Isabelle
  imports Main
begin

section \<open>Python strings\<close>

text \<open>
  A Python \<open>str\<close> is a sequence of Unicode code points; \<open>len\<close> and slicing count code
  points. The literals of the source that are not ASCII are written as code points:
  U+3010 and U+3011 are the lenticular brackets of the title header, U+25A0 is the black
  square in front of an article title, and the Korean messages are spelled out below.
\<close>

type_synonym ustr = "nat list"

definition asc :: "string \<Rightarrow> ustr" where
  "asc s = map of_char s"

definition startswith :: "ustr \<Rightarrow> ustr \<Rightarrow> bool" where
  "startswith s p = (take (length p) s = p)"

text \<open>\<open>p in s\<close> for strings.\<close>

fun contains :: "ustr \<Rightarrow> ustr \<Rightarrow> bool" where
  "contains [] p = (p = [])"
| "contains (c # cs) p = (startswith (c # cs) p \<or> contains cs p)"

text \<open>
  \<open>str.isspace\<close>, which is also what \<open>\s\<close> matches in a \<open>str\<close> pattern and what
  \<open>str.strip()\<close> removes.
\<close>

definition is_space :: "nat \<Rightarrow> bool" where
  "is_space c = ((9 \<le> c \<and> c \<le> 13) \<or> (28 \<le> c \<and> c \<le> 32) \<or> c = 133 \<or> c = 160
     \<or> c = 5760 \<or> (8192 \<le> c \<and> c \<le> 8202) \<or> c = 8232 \<or> c = 8233 \<or> c = 8239
     \<or> c = 8287 \<or> c = 12288)"

definition strip :: "ustr \<Rightarrow> ustr" where
  "strip s = rev (dropWhile is_space (rev (dropWhile is_space s)))"

text \<open>\<open>sep.join(parts)\<close>.\<close>

fun join :: "ustr \<Rightarrow> ustr list \<Rightarrow> ustr" where
  "join sep [] = []"
| "join sep [x] = x"
| "join sep (x # y # ys) = x @ sep @ join sep (y # ys)"

text \<open>
  \<open>s.replace(old, new)\<close>: every occurrence, left to right, without overlap. The counter
  is the number of characters of the current occurrence still to be skipped.
\<close>

fun replace_from :: "ustr \<Rightarrow> ustr \<Rightarrow> nat \<Rightarrow> ustr \<Rightarrow> ustr" where
  "replace_from old new k [] = []"
| "replace_from old new (Suc k) (c # cs) = replace_from old new k cs"
| "replace_from old new 0 (c # cs) =
     (if startswith (c # cs) old then new @ replace_from old new (length old - 1) cs
      else c # replace_from old new 0 cs)"

definition str_replace :: "ustr \<Rightarrow> ustr \<Rightarrow> ustr \<Rightarrow> ustr" where
  "str_replace s old new =
     (if old = [] then new @ concat (map (\<lambda>c. c # new) s) else replace_from old new 0 s)"

section \<open>The regular expressions of the source\<close>

text \<open>
  Each pattern of the source is a matcher: given the text from the current position on,
  it returns the first group and the length of the match, as the backtracking engine of
  \<open>re\<close> finds them, or \<open>None\<close> when the pattern does not match there. No pattern of the
  source matches the empty string. \<open>re.sub\<close>, \<open>re.findall\<close>, \<open>re.search\<close> and
  \<open>re.split\<close> scan from left to right and resume behind each match.
\<close>

type_synonym matcher = "ustr \<Rightarrow> (ustr \<times> nat) option"

fun sub_from :: "matcher \<Rightarrow> (ustr \<Rightarrow> ustr) \<Rightarrow> nat \<Rightarrow> ustr \<Rightarrow> ustr" where
  "sub_from m repl k [] = []"
| "sub_from m repl (Suc k) (c # cs) = sub_from m repl k cs"
| "sub_from m repl 0 (c # cs) =
     (case m (c # cs) of
        Some (g, n) \<Rightarrow> repl g @ sub_from m repl (n - 1) cs
      | None \<Rightarrow> c # sub_from m repl 0 cs)"

definition re_sub :: "matcher \<Rightarrow> (ustr \<Rightarrow> ustr) \<Rightarrow> ustr \<Rightarrow> ustr" where
  "re_sub m repl s = sub_from m repl 0 s"

fun findall_from :: "matcher \<Rightarrow> nat \<Rightarrow> ustr \<Rightarrow> ustr list" where
  "findall_from m k [] = []"
| "findall_from m (Suc k) (c # cs) = findall_from m k cs"
| "findall_from m 0 (c # cs) =
     (case m (c # cs) of
        Some (g, n) \<Rightarrow> g # findall_from m (n - 1) cs
      | None \<Rightarrow> findall_from m 0 cs)"

definition re_findall :: "matcher \<Rightarrow> ustr \<Rightarrow> ustr list" where
  "re_findall m s = findall_from m 0 s"

fun re_search :: "matcher \<Rightarrow> ustr \<Rightarrow> ustr option" where
  "re_search m [] = None"
| "re_search m (c # cs) =
     (case m (c # cs) of Some (g, n) \<Rightarrow> Some g | None \<Rightarrow> re_search m cs)"

fun split_from :: "matcher \<Rightarrow> nat \<Rightarrow> ustr \<Rightarrow> ustr \<Rightarrow> ustr list" where
  "split_from m k cur [] = [cur]"
| "split_from m (Suc k) cur (c # cs) = split_from m k cur cs"
| "split_from m 0 cur (c # cs) =
     (case m (c # cs) of
        Some (g, n) \<Rightarrow> cur # split_from m (n - 1) [] cs
      | None \<Rightarrow> split_from m 0 (cur @ [c]) cs)"

definition re_split :: "matcher \<Rightarrow> ustr \<Rightarrow> ustr list" where
  "re_split m s = split_from m 0 [] s"

text \<open>
  \<open>(.*?)closer\<close>: the shortest run of characters up to the first \<open>closer\<close>; without
  \<open>re.DOTALL\<close> the dot does not match a line feed. The result is the run and the length
  of run and closer together.
\<close>

fun lazy_dot :: "bool \<Rightarrow> ustr \<Rightarrow> ustr \<Rightarrow> (ustr \<times> nat) option" where
  "lazy_dot dotall cl [] = (if cl = [] then Some ([], 0) else None)"
| "lazy_dot dotall cl (c # cs) =
     (if startswith (c # cs) cl then Some ([], length cl)
      else if \<not> dotall \<and> c = 10 then None
      else map_option (\<lambda>(g, n). (c # g, Suc n)) (lazy_dot dotall cl cs))"

text \<open>\<open>opener(.*?)closer\<close>.\<close>

definition m_wrap :: "ustr \<Rightarrow> ustr \<Rightarrow> bool \<Rightarrow> matcher" where
  "m_wrap opn cl dotall s =
     (if startswith s opn
      then map_option (\<lambda>(g, n). (g, length opn + n)) (lazy_dot dotall cl (drop (length opn) s))
      else None)"

definition m_sub :: matcher where
  "m_sub = m_wrap (asc ''<sub>'') (asc ''</sub>'') False"

definition m_sup :: matcher where
  "m_sup = m_wrap (asc ''<sup>'') (asc ''</sup>'') False"

definition cdata_open :: ustr where
  "cdata_open = asc ''<![CDATA[''"

definition cdata_close :: ustr where
  "cdata_close = asc '']]>''"

definition m_cdata :: matcher where
  "m_cdata = m_wrap cdata_open cdata_close True"

text \<open>
  The tables of the Unicode database behind \<open>\d\<close> and \<open>\w\<close> are not part of the
  repository: below 128 the classes are written out, above they are parameters.
\<close>

definition uni_digit :: "(nat \<Rightarrow> bool) \<Rightarrow> nat \<Rightarrow> bool" where
  "uni_digit nd c = (if c < 128 then 48 \<le> c \<and> c \<le> 57 else nd c)"

definition uni_word :: "(nat \<Rightarrow> bool) \<Rightarrow> nat \<Rightarrow> bool" where
  "uni_word wd c =
     (if c < 128
      then (48 \<le> c \<and> c \<le> 57) \<or> (65 \<le> c \<and> c \<le> 90) \<or> (97 \<le> c \<and> c \<le> 122) \<or> c = 95
      else wd c)"

definition hex_digit :: "nat \<Rightarrow> bool" where
  "hex_digit c = ((48 \<le> c \<and> c \<le> 57) \<or> (65 \<le> c \<and> c \<le> 70) \<or> (97 \<le> c \<and> c \<le> 102))"

text \<open>\<open>cls+;\<close> at the start of the text.\<close>

definition run_semicolon :: "(nat \<Rightarrow> bool) \<Rightarrow> ustr \<Rightarrow> bool" where
  "run_semicolon cls s =
     (takeWhile cls s \<noteq> [] \<and> startswith (dropWhile cls s) (asc '';''))"

text \<open>The alternatives of the lookahead \<open>(amp;|lt;|gt;|apos;|quot;|#\d+;|#x[0-9a-fA-F]+;)\<close>.\<close>

definition entity_ahead :: "(nat \<Rightarrow> bool) \<Rightarrow> ustr \<Rightarrow> bool" where
  "entity_ahead nd s =
     (startswith s (asc ''amp;'') \<or> startswith s (asc ''lt;'') \<or> startswith s (asc ''gt;'')
      \<or> startswith s (asc ''apos;'') \<or> startswith s (asc ''quot;'')
      \<or> (startswith s (asc ''#'') \<and> run_semicolon (uni_digit nd) (drop 1 s))
      \<or> (startswith s (asc ''#x'') \<and> run_semicolon hex_digit (drop 2 s)))"

text \<open>\<open>&(?!(...))\<close>: an ampersand that no recognised entity follows.\<close>

definition m_amp :: "(nat \<Rightarrow> bool) \<Rightarrow> matcher" where
  "m_amp nd s =
     (case s of [] \<Rightarrow> None
      | c # cs \<Rightarrow> if c = 38 \<and> \<not> entity_ahead nd cs then Some ([], 1) else None)"

definition fix_amp :: "(nat \<Rightarrow> bool) \<Rightarrow> ustr \<Rightarrow> ustr" where
  "fix_amp nd s = re_sub (m_amp nd) (\<lambda>g. asc ''&amp;'') s"

text \<open>\<open><br\s*/?>\<close>.\<close>

definition m_br :: matcher where
  "m_br s =
     (if startswith s (asc ''<br'')
      then (let r = drop 3 s; w = length (takeWhile is_space r); r1 = dropWhile is_space r;
                sl = (if startswith r1 (asc ''/'') then 1 else 0)
            in if startswith (drop sl r1) (asc ''>'') then Some ([], 3 + w + sl + 1) else None)
      else None)"

text \<open>
  \<open><(\w+)(?:\s+[^>]*)?>[^<]*$\<close>: an opening tag, with or without attributes, behind
  which no \<open><\<close> stands up to the end of the string. The match reaches the end.
\<close>

definition m_opened :: "(nat \<Rightarrow> bool) \<Rightarrow> matcher" where
  "m_opened wd s =
     (case s of [] \<Rightarrow> None
      | c # cs \<Rightarrow>
          if c \<noteq> 60 then None
          else (let name = takeWhile (uni_word wd) cs; r = dropWhile (uni_word wd) cs
                in if name = [] then None
                   else if startswith r (asc ''>'')
                   then (if 60 \<in> set (drop 1 r) then None else Some (name, length s))
                   else (case r of [] \<Rightarrow> None
                         | d # ds \<Rightarrow>
                             if is_space d
                             then (case dropWhile (\<lambda>x. x \<noteq> 62) ds of [] \<Rightarrow> None
                                   | e # es \<Rightarrow>
                                       if 60 \<in> set es then None else Some (name, length s))
                             else None)))"

text \<open>\<open><[^>]+>\<close> and \<open><[^>]*>\<close>.\<close>

definition m_tag :: "bool \<Rightarrow> matcher" where
  "m_tag nonempty s =
     (case s of [] \<Rightarrow> None
      | c # cs \<Rightarrow>
          if c \<noteq> 60 then None
          else (let inner = takeWhile (\<lambda>x. x \<noteq> 62) cs
                in if dropWhile (\<lambda>x. x \<noteq> 62) cs = [] \<or> (nonempty \<and> inner = []) then None
                   else Some ([], length inner + 2)))"

text \<open>\<open>cls+\<close>, for \<open> +\<close> and \<open>\s+\<close>.\<close>

definition m_run :: "(nat \<Rightarrow> bool) \<Rightarrow> matcher" where
  "m_run cls s = (if takeWhile cls s = [] then None else Some ([], length (takeWhile cls s)))"

text \<open>\<open>prefix([^"]+)"\<close>, for \<open>title="([^"]+)"\<close> and \<open><ARTICLE title="([^"]+)"\<close>.\<close>

definition m_quoted :: "ustr \<Rightarrow> matcher" where
  "m_quoted pre s =
     (if startswith s pre
      then (let r = drop (length pre) s; v = takeWhile (\<lambda>x. x \<noteq> 34) r
            in if v = [] \<or> dropWhile (\<lambda>x. x \<noteq> 34) r = [] then None
               else Some (v, length pre + length v + 1))
      else None)"

definition m_title :: matcher where
  "m_title = m_quoted (asc ''title='' @ [34])"

definition m_article_title :: matcher where
  "m_article_title = m_quoted (asc ''<ARTICLE title='' @ [34])"

text \<open>\<open><PARAGRAPH[^>]*>(.*?)</PARAGRAPH>\<close> with \<open>re.DOTALL\<close>.\<close>

definition m_paragraph :: matcher where
  "m_paragraph s =
     (if startswith s (asc ''<PARAGRAPH'')
      then (let r = drop 10 s; a = length (takeWhile (\<lambda>x. x \<noteq> 62) r)
            in case dropWhile (\<lambda>x. x \<noteq> 62) r of [] \<Rightarrow> None
               | e # es \<Rightarrow>
                   map_option (\<lambda>(g, n). (g, 10 + a + 1 + n)) (lazy_dot True (asc ''</PARAGRAPH>'') es))
      else None)"

text \<open>\<open>[.!?]\s+\<close>.\<close>

definition m_sentence_end :: matcher where
  "m_sentence_end s =
     (case s of [] \<Rightarrow> None
      | c # cs \<Rightarrow>
          if (c = 46 \<or> c = 33 \<or> c = 63) \<and> takeWhile is_space cs \<noteq> []
          then Some ([], 1 + length (takeWhile is_space cs)) else None)"

section \<open>The parts of the Python runtime the pipeline calls\<close>

text \<open>
  \<open>ET.fromstring\<close>, \<open>html.unescape\<close> and the Unicode tables are library code. The
  pipeline takes them as parameters, so every theorem below holds for whatever they
  compute, and for whatever exception they raise. An exception is a value: either
  \<open>ET.ParseError\<close>, which the inner handlers select, or any other \<open>Exception\<close>; both
  carry the text that \<open>str(e)\<close> returns.
\<close>

datatype exn = ParseError ustr | OtherException ustr

fun exn_str :: "exn \<Rightarrow> ustr" where
  "exn_str (ParseError m) = m"
| "exn_str (OtherException m) = m"

text \<open>
  An \<open>Element\<close>: its tag, its attributes, the text in front of its first child
  (\<open>None\<close> when there is none) and its children in document order.
\<close>

datatype element = Element (tag: ustr) (attrib: "(ustr \<times> ustr) list") (etext: "ustr option")
  (children: "element list")

record pylib =
  fromstring :: "ustr \<Rightarrow> exn + element"
  unescape :: "ustr \<Rightarrow> exn + ustr"
  nd_table :: "nat \<Rightarrow> bool"
  word_table :: "nat \<Rightarrow> bool"

text \<open>\<open>elem.get(key, default)\<close> and \<open>elem.findall(name)\<close> for a plain tag name.\<close>

definition get_attr :: "element \<Rightarrow> ustr \<Rightarrow> ustr \<Rightarrow> ustr" where
  "get_attr e k d = (case map_of (attrib e) k of None \<Rightarrow> d | Some v \<Rightarrow> v)"

definition findall_tag :: "element \<Rightarrow> ustr \<Rightarrow> element list" where
  "findall_tag e t = filter (\<lambda>c. tag c = t) (children e)"

text \<open>A loop whose body may raise stops at the first exception.\<close>

fun traverse :: "('a \<Rightarrow> exn + 'b) \<Rightarrow> 'a list \<Rightarrow> exn + 'b list" where
  "traverse f [] = Inr []"
| "traverse f (x # xs) =
     (case f x of Inl e \<Rightarrow> Inl e
      | Inr y \<Rightarrow> (case traverse f xs of Inl e \<Rightarrow> Inl e | Inr ys \<Rightarrow> Inr (y # ys)))"

section \<open>The parsed document\<close>

text \<open>
  The dictionaries the pipeline returns. The keys \<open>sections\<close>, \<open>error\<close> and \<open>raw\<close>
  are present in some results only: an absent key is \<open>None\<close>.
\<close>

record article =
  art_title :: ustr
  art_paragraphs :: "ustr list"

record section_data =
  sec_title :: ustr
  sec_articles :: "article list"

record parsed_doc =
  doc_title :: ustr
  doc_type :: ustr
  doc_sections :: "section_data list option"
  doc_text :: ustr
  doc_error :: "ustr option"
  doc_raw :: "ustr option"

definition header :: "ustr \<Rightarrow> ustr" where
  "header t = [12304] @ t @ [12305]"

definition article_lines :: "article \<Rightarrow> ustr list" where
  "article_lines a =
     (if art_title a \<noteq> [] then [[10, 9632, 32] @ art_title a] else [])
     @ map (\<lambda>p. asc ''- '' @ p) (art_paragraphs a)"

definition extract_text_from_parsed_doc :: "parsed_doc \<Rightarrow> ustr" where
  "extract_text_from_parsed_doc doc_data =
     join [10]
       ((if doc_title doc_data \<noteq> [] then [header (doc_title doc_data)] else [])
        @ concat (map (\<lambda>s. concat (map article_lines (sec_articles s)))
            (case doc_sections doc_data of None \<Rightarrow> [] | Some ss \<Rightarrow> ss)))"

section \<open>The structured walk of tiers 1 and 2\<close>

text \<open>
  The steps every paragraph text goes through behind the optional CDATA step: tags
  removed, entities decoded, carriage returns dropped, tabs to spaces, runs of spaces
  collapsed, both ends stripped.
\<close>

definition clean_text :: "pylib \<Rightarrow> ustr \<Rightarrow> exn + ustr" where
  "clean_text lib t =
     (case unescape lib (re_sub (m_tag True) (\<lambda>g. []) t) of
        Inl e \<Rightarrow> Inl e
      | Inr u \<Rightarrow>
          Inr (strip (re_sub (m_run (\<lambda>c. c = 32)) (\<lambda>g. [32])
                 (str_replace (str_replace u [13] []) [9] [32]))))"

definition strip_cdata :: "ustr \<Rightarrow> ustr" where
  "strip_cdata s = re_sub m_cdata (\<lambda>g. g) s"

text \<open>The paragraph text of \<open>parse_xml_doc\<close>, with its CDATA step.\<close>

definition paragraph_text :: "pylib \<Rightarrow> element \<Rightarrow> exn + ustr" where
  "paragraph_text lib p =
     (let t = (case etext p of None \<Rightarrow> [] | Some x \<Rightarrow> x);
          t1 = (if contains t (asc ''![CDATA['') then strip_cdata t else t)
      in clean_text lib t1)"

text \<open>The paragraph text of \<open>handle_complex_xml_parsing\<close>, without it.\<close>

definition paragraph_text_recovery :: "pylib \<Rightarrow> element \<Rightarrow> exn + ustr" where
  "paragraph_text_recovery lib p =
     clean_text lib (case etext p of None \<Rightarrow> [] | Some x \<Rightarrow> x)"

definition build_article :: "(element \<Rightarrow> exn + ustr) \<Rightarrow> element \<Rightarrow> exn + article" where
  "build_article ptext a =
     (case traverse ptext (findall_tag a (asc ''PARAGRAPH'')) of
        Inl e \<Rightarrow> Inl e
      | Inr ps \<Rightarrow>
          Inr \<lparr>art_title = get_attr a (asc ''title'') [],
               art_paragraphs = filter (\<lambda>t. t \<noteq> []) ps\<rparr>)"

definition build_section :: "(element \<Rightarrow> exn + ustr) \<Rightarrow> element \<Rightarrow> exn + section_data" where
  "build_section ptext s =
     (case traverse (build_article ptext) (findall_tag s (asc ''ARTICLE'')) of
        Inl e \<Rightarrow> Inl e
      | Inr as \<Rightarrow>
          Inr \<lparr>sec_title = get_attr s (asc ''title'') [],
               sec_articles = filter (\<lambda>a. art_paragraphs a \<noteq> [] \<or> art_title a \<noteq> []) as\<rparr>)"

text \<open>
  The tree walk, written twice in the source (lines 60 to 126 and 170 to 227); the two
  copies differ in the paragraph step only.
\<close>

definition build_result :: "(element \<Rightarrow> exn + ustr) \<Rightarrow> element \<Rightarrow> exn + parsed_doc" where
  "build_result ptext root =
     (case traverse (build_section ptext) (findall_tag root (asc ''SECTION'')) of
        Inl e \<Rightarrow> Inl e
      | Inr ss \<Rightarrow>
          (let result = \<lparr>doc_title = get_attr root (asc ''title'') [],
                          doc_type = get_attr root (asc ''type'') [],
                          doc_sections = Some (filter (\<lambda>s. sec_articles s \<noteq> []) ss),
                          doc_text = [], doc_error = None, doc_raw = None\<rparr>
           in Inr (result\<lparr>doc_text := extract_text_from_parsed_doc result\<rparr>)))"

text \<open>The body of the inner \<open>try\<close> of both tiers: the parse, then the walk.\<close>

definition structured :: "pylib \<Rightarrow> (element \<Rightarrow> exn + ustr) \<Rightarrow> ustr \<Rightarrow> exn + parsed_doc" where
  "structured lib ptext xml_string =
     (case fromstring lib xml_string of
        Inl e \<Rightarrow> Inl e
      | Inr root \<Rightarrow> build_result ptext root)"

section \<open>Regex salvage and plain-text fallback\<close>

text \<open>The Korean literals: "no title", "processing error", "text extraction failed",
  "text extraction", "extraction failed" and the sentence of the last resort.\<close>

definition no_title :: ustr where
  "no_title = [51228, 47785, 32, 50630, 51020]"

definition processing_error :: ustr where
  "processing_error = [52376, 47532, 32, 50724, 47448]"

definition extraction_failed :: ustr where
  "extraction_failed = [53581, 49828, 53944, 32, 52628, 52636, 32, 49892, 54056]"

definition text_extraction_title :: ustr where
  "text_extraction_title = [53581, 49828, 53944, 32, 52628, 52636]"

definition extraction_failed_title :: ustr where
  "extraction_failed_title = [52628, 52636, 32, 49892, 54056]"

definition extraction_failed_text :: ustr where
  "extraction_failed_text =
     [53581, 49828, 53944, 32, 52628, 52636, 50640, 32, 49892, 54056, 54664, 49845, 45768,
      45796, 46]"

text \<open>
  The preprocessing shared by \<open>handle_complex_xml_parsing\<close> and
  \<open>extract_text_from_broken_xml\<close>: CDATA markers removed, \<open>sub\<close> and \<open>sup\<close>
  unwrapped, \<open>br\<close> to a space.
\<close>

definition unwrap_markup :: "ustr \<Rightarrow> ustr" where
  "unwrap_markup s =
     re_sub m_br (\<lambda>g. [32]) (re_sub m_sup (\<lambda>g. g) (re_sub m_sub (\<lambda>g. g) (strip_cdata s)))"

text \<open>Lines 321 to 335: the text when salvage found neither a title nor a paragraph.\<close>

definition plain_text_fallback :: "pylib \<Rightarrow> ustr \<Rightarrow> ustr \<Rightarrow> exn + ustr" where
  "plain_text_fallback lib dtitle xml_string =
     (case unescape lib (re_sub (m_tag False) (\<lambda>g. [32]) xml_string) of
        Inl e \<Rightarrow> Inl e
      | Inr u \<Rightarrow>
          (let plain_text = strip (re_sub (m_run is_space) (\<lambda>g. [32]) u);
               sentences = re_split m_sentence_end plain_text;
               meaningful_sentences =
                 map (\<lambda>s. strip s @ asc ''.'') (filter (\<lambda>s. length (strip s) > 10) sentences)
           in Inr (if meaningful_sentences \<noteq> []
                   then header dtitle @ [10, 10] @ join (10 # asc ''- '') ([] # meaningful_sentences)
                   else header dtitle @ [10, 10] @ asc ''- '' @ extraction_failed)))"

text \<open>The body of the \<open>try\<close> of \<open>extract_text_from_broken_xml\<close>.\<close>

definition salvage :: "pylib \<Rightarrow> ustr \<Rightarrow> exn + parsed_doc" where
  "salvage lib xml0 =
     (let xml_string = unwrap_markup xml0;
          dtitle = (case re_search m_title xml_string of Some t \<Rightarrow> t | None \<Rightarrow> no_title);
          article_titles = re_findall m_article_title xml_string;
          paragraph_contents = re_findall m_paragraph xml_string;
          title_parts = map (\<lambda>t. [10, 9632, 32] @ t) (filter (\<lambda>t. strip t \<noteq> []) article_titles)
      in case traverse (clean_text lib) paragraph_contents of
           Inl e \<Rightarrow> Inl e
         | Inr contents \<Rightarrow>
             (let text_parts = [header dtitle] @ title_parts
                    @ map (\<lambda>c. asc ''- '' @ c) (filter (\<lambda>c. c \<noteq> []) contents);
                  result = \<lparr>doc_title = dtitle, doc_type = asc ''text_extraction'',
                            doc_sections = None, doc_text = join [10] text_parts,
                            doc_error = None, doc_raw = None\<rparr>
              in if doc_text result = header dtitle
                 then (case plain_text_fallback lib dtitle xml_string of
                         Inl e \<Rightarrow> Inl e
                       | Inr t \<Rightarrow> Inr (result\<lparr>doc_text := t\<rparr>))
                 else Inr result))"

text \<open>Lines 354 to 358: the dictionary of the innermost handler.\<close>

definition last_resort_result :: parsed_doc where
  "last_resort_result =
     \<lparr>doc_title = extraction_failed_title, doc_type = asc ''error'', doc_sections = None,
      doc_text = extraction_failed_text, doc_error = None, doc_raw = None\<rparr>"

definition extract_text_from_broken_xml :: "pylib \<Rightarrow> ustr \<Rightarrow> parsed_doc" where
  "extract_text_from_broken_xml lib xml_string =
     (case salvage lib xml_string of
        Inr result \<Rightarrow> result
      | Inl e \<Rightarrow>
          (case unescape lib (re_sub (m_tag False) (\<lambda>g. [32]) xml_string) of
             Inr u \<Rightarrow>
               \<lparr>doc_title = text_extraction_title, doc_type = asc ''raw_text'',
                doc_sections = None,
                doc_text = strip (re_sub (m_run is_space) (\<lambda>g. [32]) u),
                doc_error = None, doc_raw = None\<rparr>
           | Inl e2 \<Rightarrow> last_resort_result))"

section \<open>Tag repair\<close>

definition opened_tags :: "pylib \<Rightarrow> ustr \<Rightarrow> ustr list" where
  "opened_tags lib s = re_findall (m_opened (word_table lib)) s"

text \<open>Lines 148 to 163: the string handed to the second parse.\<close>

definition repair :: "pylib \<Rightarrow> ustr \<Rightarrow> ustr" where
  "repair lib xml0 =
     (let xml_string = fix_amp (nd_table lib) (unwrap_markup xml0)
      in foldl (\<lambda>x t. x @ asc ''</'' @ t @ asc ''>'') xml_string (rev (opened_tags lib xml_string)))"

text \<open>
  Both handlers of \<open>handle_complex_xml_parsing\<close> call the salvage function on the
  repaired string, which is what \<open>xml_string\<close> holds when the parse or the walk raises.
\<close>

definition handle_complex_xml_parsing :: "pylib \<Rightarrow> ustr \<Rightarrow> parsed_doc" where
  "handle_complex_xml_parsing lib xml0 =
     (let xml_string = repair lib xml0
      in case structured lib (paragraph_text_recovery lib) xml_string of
           Inr result \<Rightarrow> result
         | Inl e \<Rightarrow> extract_text_from_broken_xml lib xml_string)"

section \<open>The entry point\<close>

text \<open>Lines 43 to 54: the loop replaces each block it found by its repaired copy.\<close>

definition splice_block :: "pylib \<Rightarrow> ustr \<Rightarrow> ustr \<Rightarrow> ustr" where
  "splice_block lib xml_string block =
     str_replace xml_string (cdata_open @ block @ cdata_close)
       (cdata_open @ fix_amp (nd_table lib) block @ cdata_close)"

definition sanitize :: "pylib \<Rightarrow> ustr \<Rightarrow> ustr" where
  "sanitize lib xml0 =
     (let xml_string = re_sub m_sup (\<lambda>g. g) (re_sub m_sub (\<lambda>g. g) xml0)
      in foldl (splice_block lib) xml_string (re_findall m_cdata xml_string))"

definition error_result :: "exn \<Rightarrow> ustr \<Rightarrow> parsed_doc" where
  "error_result e xml_string =
     \<lparr>doc_title = processing_error, doc_type = asc ''error'', doc_sections = None,
      doc_text = processing_error @ asc '': '' @ exn_str e,
      doc_error = Some (exn_str e),
      doc_raw = Some (take 500 xml_string @ (if length xml_string > 500 then asc ''...'' else []))\<rparr>"

text \<open>
  \<open>None\<close> is Python's \<open>None\<close>. The inner \<open>try\<close> holds the parse and the walk; its
  handler takes \<open>ET.ParseError\<close> only, and every other exception reaches the outer one.
\<close>

definition parse_xml_doc :: "pylib \<Rightarrow> ustr \<Rightarrow> parsed_doc option" where
  "parse_xml_doc lib xml0 =
     (if xml0 = [] then None
      else (let xml_string = sanitize lib xml0
            in case structured lib (paragraph_text lib) xml_string of
                 Inr result \<Rightarrow> Some result
               | Inl (ParseError m) \<Rightarrow> Some (handle_complex_xml_parsing lib xml_string)
               | Inl (OtherException m) \<Rightarrow> Some (error_result (OtherException m) xml_string)))"

text \<open>
  The caller, lines 497 to 518 of \<open>fetch_drug_approval_data\<close>: the field is read with
  \<open>item.get(key, "")\<close> and parsed only when it is truthy; \<open>None\<close> as the argument is an
  absent or null field, \<open>None\<close> as the result is a record without the parsed field.
\<close>

definition parse_doc_field :: "pylib \<Rightarrow> ustr option \<Rightarrow> parsed_doc option" where
  "parse_doc_field lib v =
     (let x = (case v of None \<Rightarrow> [] | Some s \<Rightarrow> s)
      in if x \<noteq> [] then parse_xml_doc lib x else None)"

section \<open>Documents of text and CDATA blocks\<close>

text \<open>
  The class of inputs on which the sanitizer is followed to the end: a document is a
  sequence of text pieces, each followed by a CDATA block, and a last piece. A text is
  plain when it holds neither \<open><!\<close> nor \<open><s\<close>: no block opens in it and no
  \<open>sub\<close> or \<open>sup\<close> tag; a block is plain when it holds no \<open>]\<close> in addition, so
  that it ends at its own \<open>]]>\<close>.
\<close>

fun no_pair :: "nat \<Rightarrow> ustr \<Rightarrow> bool" where
  "no_pair d [] = True"
| "no_pair d [c] = True"
| "no_pair d (c # e # r) = (\<not> (c = 60 \<and> e = d) \<and> no_pair d (e # r))"

definition plain :: "ustr \<Rightarrow> bool" where
  "plain s = (no_pair 33 s \<and> no_pair 115 s)"

definition plain_block :: "ustr \<Rightarrow> bool" where
  "plain_block b = (plain b \<and> 93 \<notin> set b)"

definition cdata_block :: "ustr \<Rightarrow> ustr" where
  "cdata_block b = cdata_open @ b @ cdata_close"

fun cdata_document :: "(ustr \<times> ustr) list \<Rightarrow> ustr \<Rightarrow> ustr" where
  "cdata_document [] rest = rest"
| "cdata_document ((p, b) # segs) rest = p @ cdata_open @ b @ cdata_close @ cdata_document segs rest"

definition plain_document :: "(ustr \<times> ustr) list \<Rightarrow> ustr \<Rightarrow> bool" where
  "plain_document segs rest = (list_all (\<lambda>(p, b). plain p \<and> plain_block b) segs \<and> plain rest)"

text \<open>The document with every block repaired.\<close>

definition repaired :: "(nat \<Rightarrow> bool) \<Rightarrow> (ustr \<times> ustr) list \<Rightarrow> (ustr \<times> ustr) list" where
  "repaired nd segs = map (\<lambda>(p, b). (p, fix_amp nd b)) segs"

text \<open>
  What one round of the loop of lines 51 to 54 does to a block, and how far the loop has
  come after the blocks of \<open>S\<close>: a block is as it was or repaired, and repaired when its
  text is in \<open>S\<close>.
\<close>

definition splice_one :: "(nat \<Rightarrow> bool) \<Rightarrow> ustr \<Rightarrow> ustr \<Rightarrow> ustr" where
  "splice_one nd c b = (if b = c then fix_amp nd c else b)"

definition spliced :: "(nat \<Rightarrow> bool) \<Rightarrow> ustr set \<Rightarrow> (ustr \<times> ustr) list \<Rightarrow> (ustr \<times> ustr) list \<Rightarrow> bool" where
  "spliced nd S cur orig =
     list_all2 (\<lambda>x y. fst x = fst y \<and> (snd x = snd y \<or> snd x = fix_amp nd (snd y))
        \<and> (snd y \<in> S \<longrightarrow> snd x = fix_amp nd (snd y))) cur orig"

section \<open>A reference instance of the library\<close>

text \<open>
  The concrete runs below need a concrete parser and a concrete \<open>html.unescape\<close>. This
  instance covers the XML the runs use: elements, attributes in single or double quotes,
  character data, CDATA sections, the five predefined entities and numeric character
  references, with line ends normalised and the attribute values' white space turned
  into spaces. Comments, processing instructions, document type declarations, name
  spaces and names outside ASCII are outside it and are reported as not well-formed;
  no run below contains one. The text of the \<open>ParseError\<close> is not the parser's own.
\<close>

datatype xml_event =
  StartTag ustr "(ustr \<times> ustr) list"
| EmptyTag ustr "(ustr \<times> ustr) list"
| EndTag ustr
| CharData ustr
| CDataSection ustr

definition xml_space :: "nat \<Rightarrow> bool" where
  "xml_space c = (c = 32 \<or> c = 9 \<or> c = 10 \<or> c = 13)"

definition name_start :: "nat \<Rightarrow> bool" where
  "name_start c = ((65 \<le> c \<and> c \<le> 90) \<or> (97 \<le> c \<and> c \<le> 122) \<or> c = 95)"

definition name_char :: "nat \<Rightarrow> bool" where
  "name_char c = (name_start c \<or> (48 \<le> c \<and> c \<le> 57) \<or> c = 45 \<or> c = 46)"

definition valid_name :: "ustr \<Rightarrow> bool" where
  "valid_name nm = (case nm of [] \<Rightarrow> False | c # cs \<Rightarrow> name_start c)"

definition xml_char :: "nat \<Rightarrow> bool" where
  "xml_char n = (n = 9 \<or> n = 10 \<or> n = 13 \<or> (32 \<le> n \<and> n \<le> 55295)
     \<or> (57344 \<le> n \<and> n \<le> 65533) \<or> (65536 \<le> n \<and> n \<le> 1114111))"

definition digit_val :: "nat \<Rightarrow> nat" where
  "digit_val c = (if c \<le> 57 then c - 48 else if c \<le> 70 then c - 55 else c - 87)"

definition number_of :: "nat \<Rightarrow> ustr \<Rightarrow> nat" where
  "number_of base ds = foldl (\<lambda>a d. base * a + digit_val d) 0 ds"

definition dec_digit :: "nat \<Rightarrow> bool" where
  "dec_digit c = (48 \<le> c \<and> c \<le> 57)"

text \<open>A reference behind its ampersand: the character and the length of the reference.\<close>

definition xml_ref :: "ustr \<Rightarrow> (nat \<times> nat) option" where
  "xml_ref s =
     (if startswith s (asc ''amp;'') then Some (38, 4)
      else if startswith s (asc ''lt;'') then Some (60, 3)
      else if startswith s (asc ''gt;'') then Some (62, 3)
      else if startswith s (asc ''apos;'') then Some (39, 5)
      else if startswith s (asc ''quot;'') then Some (34, 5)
      else if startswith s (asc ''#x'') \<and> run_semicolon hex_digit (drop 2 s)
      then (let ds = takeWhile hex_digit (drop 2 s); n = number_of 16 ds
            in if xml_char n then Some (n, length ds + 3) else None)
      else if startswith s (asc ''#'') \<and> run_semicolon dec_digit (drop 1 s)
      then (let ds = takeWhile dec_digit (drop 1 s); n = number_of 10 ds
            in if xml_char n then Some (n, length ds + 2) else None)
      else None)"

text \<open>An attribute value behind its opening quote: the value and the characters read.\<close>

fun attr_value :: "nat \<Rightarrow> nat \<Rightarrow> ustr \<Rightarrow> (ustr \<times> nat) option" where
  "attr_value q k [] = None"
| "attr_value q (Suc k) (c # cs) = map_option (\<lambda>(v, n). (v, Suc n)) (attr_value q k cs)"
| "attr_value q 0 (c # cs) =
     (if c = q then Some ([], 1)
      else if c = 60 then None
      else if c = 38
      then (case xml_ref cs of None \<Rightarrow> None
            | Some (ch, n) \<Rightarrow> map_option (\<lambda>(v, m). (ch # v, Suc m)) (attr_value q n cs))
      else map_option (\<lambda>(v, m). ((if xml_space c then 32 else c) # v, Suc m))
             (attr_value q 0 cs))"

text \<open>
  A start tag behind its name: the attributes, whether the tag closes itself, and the
  characters read. The first argument bounds the number of attributes.
\<close>

fun tag_rest :: "nat \<Rightarrow> ustr \<Rightarrow> ((ustr \<times> ustr) list \<times> bool \<times> nat) option" where
  "tag_rest 0 s = None"
| "tag_rest (Suc f) s =
     (let w = length (takeWhile xml_space s); r = dropWhile xml_space s
      in if startswith r (asc ''>'') then Some ([], False, w + 1)
         else if startswith r (asc ''/>'') then Some ([], True, w + 2)
         else if w = 0 then None
         else (let nm = takeWhile name_char r; r1 = dropWhile name_char r;
                   w1 = length (takeWhile xml_space r1)
               in if \<not> valid_name nm then None
                  else (case dropWhile xml_space r1 of [] \<Rightarrow> None
                        | e # r3 \<Rightarrow>
                            if e \<noteq> 61 then None
                            else (let w2 = length (takeWhile xml_space r3)
                                  in case dropWhile xml_space r3 of [] \<Rightarrow> None
                                     | q # r5 \<Rightarrow>
                                         if q \<noteq> 34 \<and> q \<noteq> 39 then None
                                         else (case attr_value q 0 r5 of None \<Rightarrow> None
                                               | Some (v, n) \<Rightarrow>
                                                   (case tag_rest f (drop n r5) of None \<Rightarrow> None
                                                    | Some (as, sc, m) \<Rightarrow>
                                                        if nm \<in> set (map fst as) then None
                                                        else Some ((nm, v) # as, sc,
                                                          w + length nm + w1 + 1 + w2 + 1 + n + m)))))))"

text \<open>The markup that starts at a \<open><\<close>.\<close>

definition xml_markup :: "ustr \<Rightarrow> (xml_event \<times> nat) option" where
  "xml_markup s =
     (if startswith s cdata_open
      then (case lazy_dot True cdata_close (drop 9 s) of None \<Rightarrow> None
            | Some (g, n) \<Rightarrow> Some (CDataSection g, 9 + n))
      else if startswith s (asc ''</'')
      then (let nm = takeWhile name_char (drop 2 s); r = dropWhile name_char (drop 2 s)
            in if valid_name nm \<and> startswith (dropWhile xml_space r) (asc ''>'')
               then Some (EndTag nm, 2 + length nm + length (takeWhile xml_space r) + 1)
               else None)
      else (let nm = takeWhile name_char (drop 1 s)
            in if \<not> valid_name nm then None
               else (case tag_rest (length s) (dropWhile name_char (drop 1 s)) of None \<Rightarrow> None
                     | Some (as, sc, n) \<Rightarrow>
                         Some (if sc then EmptyTag nm as else StartTag nm as, 1 + length nm + n))))"

fun xml_lex :: "nat \<Rightarrow> ustr \<Rightarrow> xml_event list option" where
  "xml_lex k [] = Some []"
| "xml_lex (Suc k) (c # cs) = xml_lex k cs"
| "xml_lex 0 (c # cs) =
     (if c = 60
      then (case xml_markup (c # cs) of None \<Rightarrow> None
            | Some (ev, n) \<Rightarrow> map_option (\<lambda>evs. ev # evs) (xml_lex (n - 1) cs))
      else if c = 38
      then (case xml_ref cs of None \<Rightarrow> None
            | Some (ch, n) \<Rightarrow> map_option (\<lambda>evs. CharData [ch] # evs) (xml_lex n cs))
      else if \<not> xml_char c \<or> startswith (c # cs) cdata_close then None
      else map_option (\<lambda>evs. CharData [c] # evs) (xml_lex 0 cs))"

text \<open>
  The tree builder: a stack of open elements, each with the text in front of its first
  child and its children so far, latest first. Text behind a child is the child's tail,
  which the pipeline never reads.
\<close>

datatype frame = Frame ustr "(ustr \<times> ustr) list" ustr "element list"

fun close_frame :: "frame \<Rightarrow> element" where
  "close_frame (Frame t a txt ch) = Element t a (if txt = [] then None else Some txt) (rev ch)"

fun add_child :: "element \<Rightarrow> frame \<Rightarrow> frame" where
  "add_child e (Frame t a txt ch) = Frame t a txt (e # ch)"

fun add_text :: "ustr \<Rightarrow> frame \<Rightarrow> frame" where
  "add_text d (Frame t a txt ch) = (if ch = [] then Frame t a (txt @ d) ch else Frame t a txt ch)"

fun finish :: "element \<Rightarrow> frame list \<Rightarrow> element option \<Rightarrow> (frame list \<times> element option) option" where
  "finish e [] root = (if root = None then Some ([], Some e) else None)"
| "finish e (f # fs) root = Some (add_child e f # fs, root)"

fun xml_build :: "frame list \<Rightarrow> element option \<Rightarrow> xml_event list \<Rightarrow> element option" where
  "xml_build st root [] = (if st = [] then root else None)"
| "xml_build st root (CharData d # evs) =
     (case st of [] \<Rightarrow> if list_all xml_space d then xml_build st root evs else None
      | f # fs \<Rightarrow> xml_build (add_text d f # fs) root evs)"
| "xml_build st root (CDataSection d # evs) =
     (case st of [] \<Rightarrow> None | f # fs \<Rightarrow> xml_build (add_text d f # fs) root evs)"
| "xml_build st root (StartTag t a # evs) =
     (if st = [] \<and> root \<noteq> None then None else xml_build (Frame t a [] [] # st) root evs)"
| "xml_build st root (EmptyTag t a # evs) =
     (case finish (Element t a None []) st root of None \<Rightarrow> None
      | Some (st', root') \<Rightarrow> xml_build st' root' evs)"
| "xml_build st root (EndTag t # evs) =
     (case st of [] \<Rightarrow> None
      | Frame t' a txt ch # fs \<Rightarrow>
          if t \<noteq> t' then None
          else (case finish (close_frame (Frame t' a txt ch)) fs root of None \<Rightarrow> None
                | Some (st', root') \<Rightarrow> xml_build st' root' evs))"

definition xml_fromstring :: "ustr \<Rightarrow> exn + element" where
  "xml_fromstring s =
     (case xml_lex 0 (str_replace (str_replace s [13, 10] [10]) [13] [10]) of
        None \<Rightarrow> Inl (ParseError (asc ''not well-formed''))
      | Some evs \<Rightarrow>
          (case xml_build [] None evs of
             None \<Rightarrow> Inl (ParseError (asc ''not well-formed''))
           | Some root \<Rightarrow> Inr root))"

text \<open>
  \<open>html.unescape\<close>: the text is returned as it is when it holds no ampersand; otherwise
  every match of
  \<open>&(#[0-9]+;?|#[xX][0-9a-fA-F]+;?|[^\t\n\f <&#;]{1,32};?)\<close> is replaced. Of the
  table of named references this instance holds \<open>amp\<close>, \<open>lt\<close>, \<open>gt\<close>, \<open>quot\<close>,
  \<open>nbsp\<close> (with and without semicolon) and \<open>apos;\<close>, and of the numeric references
  those of the code points 32 to 126 and 160 to 55295; any other reference is left as it
  stands.
\<close>

definition ref_name_char :: "nat \<Rightarrow> bool" where
  "ref_name_char c = (c \<noteq> 9 \<and> c \<noteq> 10 \<and> c \<noteq> 12 \<and> c \<noteq> 32 \<and> c \<noteq> 60 \<and> c \<noteq> 38
     \<and> c \<noteq> 35 \<and> c \<noteq> 59)"

definition opt_semicolon :: "ustr \<Rightarrow> nat" where
  "opt_semicolon r = (if startswith r (asc '';'') then 1 else 0)"

definition m_charref :: matcher where
  "m_charref s =
     (case s of [] \<Rightarrow> None
      | c # cs \<Rightarrow>
          if c \<noteq> 38 then None
          else if startswith cs (asc ''#'') \<and> takeWhile dec_digit (drop 1 cs) \<noteq> []
          then (let n = 1 + length (takeWhile dec_digit (drop 1 cs));
                    n' = n + opt_semicolon (drop n cs)
                in Some (take n' cs, 1 + n'))
          else if (startswith cs (asc ''#x'') \<or> startswith cs (asc ''#X''))
                  \<and> takeWhile hex_digit (drop 2 cs) \<noteq> []
          then (let n = 2 + length (takeWhile hex_digit (drop 2 cs));
                    n' = n + opt_semicolon (drop n cs)
                in Some (take n' cs, 1 + n'))
          else (let n = length (take 32 (takeWhile ref_name_char cs));
                    n' = n + opt_semicolon (drop n cs)
                in if n = 0 then None else Some (take n' cs, 1 + n')))"

definition html5_table :: "(ustr \<times> ustr) list" where
  "html5_table =
     [(asc ''amp;'', [38]), (asc ''amp'', [38]), (asc ''lt;'', [60]), (asc ''lt'', [60]),
      (asc ''gt;'', [62]), (asc ''gt'', [62]), (asc ''quot;'', [34]), (asc ''quot'', [34]),
      (asc ''apos;'', [39]), (asc ''nbsp;'', [160]), (asc ''nbsp'', [160])]"

fun prefix_ref :: "nat \<Rightarrow> ustr \<Rightarrow> ustr option" where
  "prefix_ref 0 s = None"
| "prefix_ref (Suc x) s =
     (if Suc x < 2 then None
      else (case map_of html5_table (take (Suc x) s) of
              Some r \<Rightarrow> Some (r @ drop (Suc x) s)
            | None \<Rightarrow> prefix_ref x s))"

definition replace_charref :: "ustr \<Rightarrow> ustr" where
  "replace_charref g =
     (if startswith g (asc ''#'')
      then (let body = takeWhile (\<lambda>c. c \<noteq> 59) (drop 1 g);
                num = (if startswith body (asc ''x'') \<or> startswith body (asc ''X'')
                       then number_of 16 (drop 1 body) else number_of 10 body)
            in if (32 \<le> num \<and> num \<le> 126) \<or> (160 \<le> num \<and> num \<le> 55295) then [num]
               else 38 # g)
      else (case map_of html5_table g of
              Some r \<Rightarrow> r
            | None \<Rightarrow> (case prefix_ref (length g - 1) g of Some r \<Rightarrow> r | None \<Rightarrow> 38 # g)))"

definition html_unescape :: "ustr \<Rightarrow> ustr" where
  "html_unescape s = (if 38 \<notin> set s then s else re_sub m_charref replace_charref s)"

text \<open>Above 127 the instance knows the Hangul syllables as word characters and the
  Arabic-Indic digits as digits.\<close>

definition ref_lib :: pylib where
  "ref_lib =
     \<lparr>fromstring = xml_fromstring, unescape = (\<lambda>s. Inr (html_unescape s)),
      nd_table = (\<lambda>c. 1632 \<le> c \<and> c \<le> 1641),
      word_table = (\<lambda>c. 44032 \<le> c \<and> c \<le> 55203)\<rparr>"

section \<open>Concrete runs\<close>

text \<open>An \<open>html.unescape\<close> that raises on every text. (CPython 3.11 raises a
  \<open>ValueError\<close> on a numeric reference of more than 4300 digits.)\<close>

definition faulty_lib :: pylib where
  "faulty_lib = ref_lib\<lparr>unescape := (\<lambda>s. Inl (OtherException (asc ''ValueError'')))\<rparr>"

text \<open>An \<open>html.unescape\<close> that raises on one text only: the paragraph of the document
  below, as the parser hands it to the walk.\<close>

definition picky_lib :: pylib where
  "picky_lib = ref_lib\<lparr>unescape := (\<lambda>s. if s = asc ''hello & world''
     then Inl (OtherException (asc ''ValueError'')) else Inr (html_unescape s))\<rparr>"

text \<open>The document of the scenario with the bare ampersand, what tag repair makes of it,
  the tree of the second parse and the result.\<close>

definition c6_input :: ustr where
  "c6_input = asc ''<DOC title='' @ [34] @ asc ''T'' @ [34] @ asc ''><SECTION><ARTICLE title=''
     @ [34] @ asc ''A'' @ [34]
     @ asc ''><PARAGRAPH>hello & world</PARAGRAPH></ARTICLE></SECTION></DOC>''"

definition c6_repaired :: ustr where
  "c6_repaired = asc ''<DOC title='' @ [34] @ asc ''T'' @ [34] @ asc ''><SECTION><ARTICLE title=''
     @ [34] @ asc ''A'' @ [34]
     @ asc ''><PARAGRAPH>hello &amp; world</PARAGRAPH></ARTICLE></SECTION></DOC>''"

definition c6_tree :: element where
  "c6_tree = Element (asc ''DOC'') [(asc ''title'', asc ''T'')] None
     [Element (asc ''SECTION'') [] None
       [Element (asc ''ARTICLE'') [(asc ''title'', asc ''A'')] None
         [Element (asc ''PARAGRAPH'') [] (Some (asc ''hello & world'')) []]]]"

definition c6_sections :: "section_data list" where
  "c6_sections =
     [\<lparr>sec_title = [],
       sec_articles = [\<lparr>art_title = asc ''A'', art_paragraphs = [asc ''hello & world'']\<rparr>]\<rparr>]"

definition c6_text :: ustr where
  "c6_text = [12304] @ asc ''T'' @ [12305, 10, 10, 9632, 32] @ asc ''A'' @ [10]
     @ asc ''- hello & world''"

definition c6_result :: parsed_doc where
  "c6_result = \<lparr>doc_title = asc ''T'', doc_type = [], doc_sections = Some c6_sections,
     doc_text = c6_text, doc_error = None, doc_raw = None\<rparr>"

text \<open>A one-paragraph document, for the runs with the raising \<open>html.unescape\<close>.\<close>

definition one_paragraph :: "string \<Rightarrow> ustr" where
  "one_paragraph p =
     asc ''<D><SECTION><ARTICLE><PARAGRAPH>'' @ asc p @ asc ''</PARAGRAPH></ARTICLE></SECTION></D>''"

section \<open>Evaluation\<close>

lemmas str_defs = asc_def startswith_def is_space_def strip_def str_replace_def

lemmas re_defs = re_sub_def re_findall_def re_split_def m_wrap_def m_sub_def m_sup_def
  cdata_open_def cdata_close_def m_cdata_def uni_digit_def uni_word_def hex_digit_def
  run_semicolon_def entity_ahead_def m_amp_def fix_amp_def m_br_def m_opened_def m_tag_def
  m_run_def m_quoted_def m_title_def m_article_title_def m_paragraph_def m_sentence_end_def
  strip_cdata_def unwrap_markup_def

lemmas xml_defs = xml_space_def name_start_def name_char_def valid_name_def xml_char_def
  digit_val_def number_of_def dec_digit_def xml_ref_def xml_markup_def xml_fromstring_def

lemmas html_defs = ref_name_char_def opt_semicolon_def m_charref_def html5_table_def
  replace_charref_def html_unescape_def

lemmas walk_defs = get_attr_def findall_tag_def header_def article_lines_def
  extract_text_from_parsed_doc_def clean_text_def paragraph_text_def
  paragraph_text_recovery_def build_article_def build_section_def build_result_def

lemmas salvage_defs = salvage_def plain_text_fallback_def extract_text_from_broken_xml_def
  no_title_def extraction_failed_def

text \<open>A counter that is a numeral skips that many characters.\<close>

lemma sub_from_skip: "sub_from m r k s = sub_from m r 0 (drop k s)"
  by (induction k arbitrary: s) (case_tac [2] s, auto)

lemma findall_from_skip: "findall_from m k s = findall_from m 0 (drop k s)"
  by (induction k arbitrary: s) (case_tac [2] s, auto)

lemma split_from_skip: "split_from m k cur s = split_from m 0 cur (drop k s)"
  by (induction k arbitrary: s) (case_tac [2] s, auto)

lemma replace_from_skip: "replace_from old new k s = replace_from old new 0 (drop k s)"
  by (induction k arbitrary: s) (case_tac [2] s, auto)

lemma xml_lex_skip: "xml_lex k s = xml_lex 0 (drop k s)"
  by (induction k arbitrary: s) (case_tac [2] s, auto)

lemma attr_value_skip:
  "attr_value q k s = map_option (\<lambda>(v, n). (v, k + n)) (attr_value q 0 (drop k s))"
proof (induction k arbitrary: s)
  case 0
  show ?case by (simp add: option.map_ident)
next
  case (Suc k)
  show ?case
  proof (cases s)
    case Nil
    then show ?thesis by simp
  next
    case (Cons c cs)
    show ?thesis unfolding Cons
      by (simp add: Suc [of cs] option.map_comp comp_def split_def)
  qed
qed

lemma tag_rest_numeral: "tag_rest (numeral n) s = tag_rest (Suc (pred_numeral n)) s"
  by (simp add: numeral_eq_Suc)

lemma prefix_ref_numeral: "prefix_ref (numeral n) s = prefix_ref (Suc (pred_numeral n)) s"
  by (simp add: numeral_eq_Suc)

lemmas skip_numeral = sub_from_skip [of _ _ "numeral n"] findall_from_skip [of _ "numeral n"]
  split_from_skip [of _ "numeral n"] replace_from_skip [of _ _ "numeral n"]
  xml_lex_skip [of "numeral n"] attr_value_skip [of _ "numeral n"] tag_rest_numeral
  prefix_ref_numeral for n

section \<open>Properties of the walk and of the tiers\<close>

lemma traverse_set:
  "traverse f xs = Inr ys \<Longrightarrow> y \<in> set ys \<Longrightarrow> \<exists>x \<in> set xs. f x = Inr y"
proof (induction xs arbitrary: ys)
  case Nil
  then show ?case by simp
next
  case (Cons x xs)
  then show ?case by (auto split: sum.splits)
qed

lemma build_article_paragraphs:
  "build_article ptext a = Inr art \<Longrightarrow> p \<in> set (art_paragraphs art) \<Longrightarrow> p \<noteq> []"
  by (auto simp: build_article_def split: sum.splits)

lemma build_section_articles:
  assumes "build_section ptext s = Inr sec" and "a \<in> set (sec_articles sec)"
  shows "(art_title a \<noteq> [] \<or> art_paragraphs a \<noteq> []) \<and> (\<forall>p \<in> set (art_paragraphs a). p \<noteq> [])"
proof -
  from assms obtain as where tr: "traverse (build_article ptext) (findall_tag s (asc ''ARTICLE'')) = Inr as"
    and mem: "a \<in> set as" and ne: "art_paragraphs a \<noteq> [] \<or> art_title a \<noteq> []"
    by (auto simp: build_section_def split: sum.splits)
  from traverse_set [OF tr mem] obtain x where "build_article ptext x = Inr a" by blast
  then have "\<forall>p \<in> set (art_paragraphs a). p \<noteq> []"
    using build_article_paragraphs by blast
  with ne show ?thesis by blast
qed

lemma build_result_fields:
  assumes "build_result ptext root = Inr r"
  shows "doc_title r = get_attr root (asc ''title'') []"
    and "doc_type r = get_attr root (asc ''type'') []"
    and "doc_error r = None" and "doc_raw r = None"
    and "doc_sections r \<noteq> None"
    and "doc_text r = extract_text_from_parsed_doc r"
  using assms
  by (auto simp: build_result_def Let_def extract_text_from_parsed_doc_def split: sum.splits)

lemma build_result_sections:
  assumes "build_result ptext root = Inr r" and "doc_sections r = Some ss" and "s \<in> set ss"
  shows "sec_articles s \<noteq> []"
    and "\<forall>a \<in> set (sec_articles s). (art_title a \<noteq> [] \<or> art_paragraphs a \<noteq> [])
           \<and> (\<forall>p \<in> set (art_paragraphs a). p \<noteq> [])"
proof -
  from assms obtain ss0 where tr: "traverse (build_section ptext) (findall_tag root (asc ''SECTION'')) = Inr ss0"
    and ss: "ss = filter (\<lambda>s. sec_articles s \<noteq> []) ss0"
    by (auto simp: build_result_def Let_def split: sum.splits)
  from ss assms(3) show "sec_articles s \<noteq> []" by simp
  from ss assms(3) have "s \<in> set ss0" by simp
  from traverse_set [OF tr this] obtain x where "build_section ptext x = Inr s" by blast
  then show "\<forall>a \<in> set (sec_articles s). (art_title a \<noteq> [] \<or> art_paragraphs a \<noteq> [])
           \<and> (\<forall>p \<in> set (art_paragraphs a). p \<noteq> [])"
    using build_section_articles by blast
qed

lemma asc_neq [simp]:
  "asc ''text_extraction'' \<noteq> asc ''error''" "asc ''raw_text'' \<noteq> asc ''error''"
  "asc ''error'' \<noteq> asc ''text_extraction''" "asc ''error'' \<noteq> asc ''raw_text''"
  by (simp_all add: asc_def)

lemma salvage_fields:
  assumes "salvage lib x = Inr r"
  shows "doc_type r = asc ''text_extraction''" and "doc_sections r = None"
    and "doc_error r = None" and "doc_raw r = None"
  using assms by (auto simp: salvage_def Let_def split: sum.splits if_splits)

lemma extract_cases:
  "(\<exists>r. salvage lib x = Inr r \<and> extract_text_from_broken_xml lib x = r)
   \<or> (doc_type (extract_text_from_broken_xml lib x) = asc ''raw_text''
       \<and> doc_sections (extract_text_from_broken_xml lib x) = None)
   \<or> extract_text_from_broken_xml lib x = last_resort_result"
  by (auto simp: extract_text_from_broken_xml_def split: sum.splits)

lemma structured_Inr:
  "structured lib ptext s = Inr r \<longleftrightarrow> (\<exists>root. fromstring lib s = Inr root \<and> build_result ptext root = Inr r)"
  by (auto simp: structured_def split: sum.splits)

text \<open>How a result of the entry point came about.\<close>

lemma parse_xml_doc_cases:
  assumes "parse_xml_doc lib xml0 = Some r"
  shows "(\<exists>root ptext. build_result ptext root = Inr r)
    \<or> (\<exists>m. r = error_result (OtherException m) (sanitize lib xml0))
    \<or> (\<exists>x. salvage lib x = Inr r)
    \<or> (doc_type r = asc ''raw_text'' \<and> doc_sections r = None)
    \<or> r = last_resort_result"
proof -
  let ?x = "sanitize lib xml0"
  from assms have ne: "xml0 \<noteq> []" by (auto simp: parse_xml_doc_def split: if_splits)
  show ?thesis
  proof (cases "structured lib (paragraph_text lib) ?x")
    case (Inr res)
    with assms ne have "r = res" by (simp add: parse_xml_doc_def)
    with Inr show ?thesis by (auto simp: structured_Inr)
  next
    case (Inl e)
    show ?thesis
    proof (cases e)
      case (OtherException m)
      with Inl assms ne show ?thesis by (auto simp: parse_xml_doc_def)
    next
      case (ParseError m)
      with Inl assms ne have r: "r = handle_complex_xml_parsing lib ?x"
        by (auto simp: parse_xml_doc_def)
      show ?thesis
      proof (cases "structured lib (paragraph_text_recovery lib) (repair lib ?x)")
        case (Inr res)
        with r have "r = res" by (simp add: handle_complex_xml_parsing_def)
        with Inr show ?thesis by (auto simp: structured_Inr)
      next
        case (Inl e2)
        with r have "r = extract_text_from_broken_xml lib (repair lib ?x)"
          by (simp add: handle_complex_xml_parsing_def)
        with extract_cases [of lib "repair lib ?x"] show ?thesis by auto
      qed
    qed
  qed
qed


lemma join_nonempty: "x \<in> set xs \<Longrightarrow> x \<noteq> [] \<Longrightarrow> join sep xs \<noteq> []"
  by (induction sep xs rule: join.induct) auto

lemma join_Cons: "join sep (x # xs) = x @ (if xs = [] then [] else sep @ join sep xs)"
  by (cases xs) simp_all

lemma header_nonempty: "header t \<noteq> []"
  by (simp add: header_def)

lemma article_line_exists:
  assumes "art_title a \<noteq> [] \<or> art_paragraphs a \<noteq> []"
  shows "\<exists>l \<in> set (article_lines a). l \<noteq> []"
proof (cases "art_title a \<noteq> []")
  case True
  then show ?thesis by (simp add: article_lines_def)
next
  case False
  with assms obtain p ps where "art_paragraphs a = p # ps" by (cases "art_paragraphs a") auto
  with False show ?thesis by (simp add: article_lines_def asc_def)
qed

lemma render_nonempty:
  assumes "doc_text r = extract_text_from_parsed_doc r" and "doc_text r = []"
    and "doc_sections r = Some ss"
    and inv: "\<forall>s \<in> set ss. sec_articles s \<noteq> []
        \<and> (\<forall>a \<in> set (sec_articles s). art_title a \<noteq> [] \<or> art_paragraphs a \<noteq> [])"
  shows "doc_title r = [] \<and> ss = []"
proof -
  let ?lines = "concat (map (\<lambda>s. concat (map article_lines (sec_articles s))) ss)"
  let ?parts = "(if doc_title r \<noteq> [] then [header (doc_title r)] else []) @ ?lines"
  from assms(1,2,3) have empty: "join [10] ?parts = []"
    by (simp add: extract_text_from_parsed_doc_def)
  have no: "\<And>x. x \<in> set ?parts \<Longrightarrow> x = []"
    using join_nonempty empty by blast
  have t: "doc_title r = []"
  proof (rule ccontr)
    assume "doc_title r \<noteq> []"
    then have "header (doc_title r) \<in> set ?parts" by simp
    from no [OF this] show False by (simp add: header_nonempty)
  qed
  have "ss = []"
  proof (cases ss)
    case Nil
    then show ?thesis .
  next
    case (Cons s ss')
    with inv obtain a as where as: "sec_articles s = a # as" by (cases "sec_articles s") auto
    with inv Cons have "art_title a \<noteq> [] \<or> art_paragraphs a \<noteq> []" by simp
    from article_line_exists [OF this] obtain l where l: "l \<in> set (article_lines a)" "l \<noteq> []"
      by blast
    from l(1) Cons as have "l \<in> set ?parts" by simp
    from no [OF this] l(2) show ?thesis by simp
  qed
  with t show ?thesis by simp
qed

lemma salvage_text_nonempty:
  assumes "salvage lib x = Inr r"
  shows "doc_text r \<noteq> []"
  using assms
  by (auto simp: salvage_def plain_text_fallback_def Let_def join_Cons header_nonempty
      split: sum.splits if_splits)

lemma plain_text_fallback_shape:
  assumes "plain_text_fallback lib t x = Inr txt"
  shows "txt = header t @ [10, 10] @ asc ''- '' @ extraction_failed
    \<or> (\<exists>ms. ms \<noteq> [] \<and> txt = header t @ [10, 10] @ join (10 # asc ''- '') ([] # ms))"
  using assms by (auto simp: plain_text_fallback_def Let_def split: sum.splits if_splits)

lemma startswith_prefix: "startswith (p @ t) p"
  by (simp add: startswith_def)

lemma salvage_text_header:
  assumes "salvage lib x = Inr r"
  shows "startswith (doc_text r) (header (doc_title r))
    \<and> length (header (doc_title r)) < length (doc_text r)"
  using assms
  by (auto simp: salvage_def plain_text_fallback_def Let_def join_Cons startswith_prefix
      split: sum.splits if_splits)

lemma text_empty_cases:
  assumes "parse_xml_doc lib xml0 = Some r"
  shows "(doc_text r = [] \<longrightarrow>
            (doc_title r = [] \<and> doc_sections r = Some [])
          \<or> (doc_type r = asc ''raw_text'' \<and> doc_sections r = None))
    \<and> (doc_sections r = None \<longrightarrow> doc_type r = asc ''text_extraction'' \<longrightarrow>
          startswith (doc_text r) (header (doc_title r))
          \<and> length (header (doc_title r)) < length (doc_text r))"
proof -
  from parse_xml_doc_cases [OF assms(1)] consider
    (walk) root ptext where "build_result ptext root = Inr r"
  | (err) m where "r = error_result (OtherException m) (sanitize lib xml0)"
  | (salv) x where "salvage lib x = Inr r"
  | (raw) "doc_type r = asc ''raw_text'' \<and> doc_sections r = None"
  | (last) "r = last_resort_result"
    by blast
  then show ?thesis
  proof cases
    case walk
    from build_result_fields(5) [OF walk] obtain ss where ss: "doc_sections r = Some ss" by auto
    have inv: "\<forall>s \<in> set ss. sec_articles s \<noteq> []
        \<and> (\<forall>a \<in> set (sec_articles s). art_title a \<noteq> [] \<or> art_paragraphs a \<noteq> [])"
      using build_result_sections [OF walk ss] by blast
    have "doc_text r = [] \<longrightarrow> doc_title r = [] \<and> ss = []"
      using render_nonempty [OF build_result_fields(6) [OF walk] _ ss inv] by blast
    with ss show ?thesis by simp
  next
    case err
    then show ?thesis by (simp add: error_result_def processing_error_def)
  next
    case salv
    from salvage_text_nonempty [OF salv] salvage_text_header [OF salv] show ?thesis by simp
  next
    case raw
    then show ?thesis by (simp add: asc_def)
  next
    case last
    then show ?thesis by (simp add: last_resort_result_def extraction_failed_text_def)
  qed
qed

lemma salvage_marker:
  assumes "filter (\<lambda>t. strip t \<noteq> []) (re_findall m_article_title (unwrap_markup x)) = []"
    and "traverse (clean_text lib) (re_findall m_paragraph (unwrap_markup x)) = Inr cs"
    and "filter (\<lambda>c. c \<noteq> []) cs = []"
    and "unescape lib (re_sub (m_tag False) (\<lambda>g. [32]) (unwrap_markup x)) = Inr u"
    and "filter (\<lambda>s. 10 < length (strip s))
           (re_split m_sentence_end (strip (re_sub (m_run is_space) (\<lambda>g. [32]) u))) = []"
  shows "\<exists>res. salvage lib x = Inr res
    \<and> doc_text res = header (doc_title res) @ [10, 10] @ asc ''- '' @ extraction_failed"
  using assms by (simp add: salvage_def plain_text_fallback_def Let_def)

text \<open>
  C3, as the code has it. The text of a result is empty in two cases only: the document
  was parsed (tier 1 or 2) and has neither a title nor a retained section, so that the
  renderer joins nothing; or the raw-text handler of the salvage function stripped the
  input to nothing. A result of the salvage function itself, of type
  \<open>text_extraction\<close>, starts with the title header and goes on behind it. When both
  parses fail and the salvage function finds no article title that is not blank, no
  paragraph that is not empty after cleaning and no sentence of more than ten
  characters, the text is the header, an empty line and the "text extraction failed"
  marker.
\<close>

theorem text_empty_only_without_content:
  assumes "parse_xml_doc lib xml0 = Some r"
  shows "(doc_text r = [] \<longrightarrow>
            (doc_title r = [] \<and> doc_sections r = Some [])
          \<or> (doc_type r = asc ''raw_text'' \<and> doc_sections r = None))
    \<and> (doc_sections r = None \<longrightarrow> doc_type r = asc ''text_extraction'' \<longrightarrow>
          startswith (doc_text r) (header (doc_title r))
          \<and> length (header (doc_title r)) < length (doc_text r))
    \<and> (\<forall>m e cs u.
          structured lib (paragraph_text lib) (sanitize lib xml0) = Inl (ParseError m)
          \<longrightarrow> structured lib (paragraph_text_recovery lib) (repair lib (sanitize lib xml0)) = Inl e
          \<longrightarrow> filter (\<lambda>t. strip t \<noteq> [])
                (re_findall m_article_title (unwrap_markup (repair lib (sanitize lib xml0)))) = []
          \<longrightarrow> traverse (clean_text lib)
                (re_findall m_paragraph (unwrap_markup (repair lib (sanitize lib xml0)))) = Inr cs
          \<longrightarrow> filter (\<lambda>c. c \<noteq> []) cs = []
          \<longrightarrow> unescape lib (re_sub (m_tag False) (\<lambda>g. [32])
                (unwrap_markup (repair lib (sanitize lib xml0)))) = Inr u
          \<longrightarrow> filter (\<lambda>s. 10 < length (strip s))
                (re_split m_sentence_end (strip (re_sub (m_run is_space) (\<lambda>g. [32]) u))) = []
          \<longrightarrow> doc_text r = header (doc_title r) @ [10, 10] @ asc ''- '' @ extraction_failed)"
proof (intro conjI allI impI)
  from text_empty_cases [OF assms]
  show "doc_text r = [] \<Longrightarrow> (doc_title r = [] \<and> doc_sections r = Some [])
          \<or> (doc_type r = asc ''raw_text'' \<and> doc_sections r = None)"
    by blast
  from text_empty_cases [OF assms]
  show "doc_sections r = None \<Longrightarrow> doc_type r = asc ''text_extraction'' \<Longrightarrow>
      startswith (doc_text r) (header (doc_title r))"
    by blast
  from text_empty_cases [OF assms]
  show "doc_sections r = None \<Longrightarrow> doc_type r = asc ''text_extraction'' \<Longrightarrow>
      length (header (doc_title r)) < length (doc_text r)"
    by blast
next
  fix m e cs u
  let ?x = "repair lib (sanitize lib xml0)"
  assume s1: "structured lib (paragraph_text lib) (sanitize lib xml0) = Inl (ParseError m)"
    and s2: "structured lib (paragraph_text_recovery lib) ?x = Inl e"
    and h: "filter (\<lambda>t. strip t \<noteq> []) (re_findall m_article_title (unwrap_markup ?x)) = []"
      "traverse (clean_text lib) (re_findall m_paragraph (unwrap_markup ?x)) = Inr cs"
      "filter (\<lambda>c. c \<noteq> []) cs = []"
      "unescape lib (re_sub (m_tag False) (\<lambda>g. [32]) (unwrap_markup ?x)) = Inr u"
      "filter (\<lambda>s. 10 < length (strip s))
           (re_split m_sentence_end (strip (re_sub (m_run is_space) (\<lambda>g. [32]) u))) = []"
  from salvage_marker [OF h] obtain res where res: "salvage lib ?x = Inr res"
    and t: "doc_text res = header (doc_title res) @ [10, 10] @ asc ''- '' @ extraction_failed"
    by blast
  from assms s1 s2 res have "r = res"
    by (auto simp: parse_xml_doc_def handle_complex_xml_parsing_def
        extract_text_from_broken_xml_def split: if_splits)
  with t show "doc_text r = header (doc_title r) @ [10, 10] @ asc ''- '' @ extraction_failed"
    by simp
qed


text \<open>
  C10. Two documents with the same title and, section by section, the same articles
  render to the same text, whatever the titles of their sections are.
\<close>

theorem render_ignores_section_titles:
  assumes "doc_title d1 = doc_title d2"
    and "map_option (map sec_articles) (doc_sections d1) = map_option (map sec_articles) (doc_sections d2)"
  shows "extract_text_from_parsed_doc d1 = extract_text_from_parsed_doc d2"
proof -
  have conc: "concat (map (\<lambda>s. concat (map article_lines (sec_articles s))) ss)
      = concat (map (\<lambda>as. concat (map article_lines as)) (map sec_articles ss))" for ss
    by (simp add: comp_def)
  have "(case doc_sections d1 of None \<Rightarrow> [] | Some ss \<Rightarrow> map sec_articles ss)
      = (case doc_sections d2 of None \<Rightarrow> [] | Some ss \<Rightarrow> map sec_articles ss)"
    using assms(2) by (cases "doc_sections d1"; cases "doc_sections d2") auto
  then have "map sec_articles (case doc_sections d1 of None \<Rightarrow> [] | Some ss \<Rightarrow> ss)
      = map sec_articles (case doc_sections d2 of None \<Rightarrow> [] | Some ss \<Rightarrow> ss)"
    by (cases "doc_sections d1"; cases "doc_sections d2") auto
  then show ?thesis
    unfolding extract_text_from_parsed_doc_def conc assms(1) by simp
qed


text \<open>
  C2, as the code has it. For a non-empty string \<open>parse_xml_doc\<close> returns a
  dictionary, whatever the parser and \<open>html.unescape\<close> do. When the parse or the walk
  of tier 1 raises an exception other than \<open>ParseError\<close>, the result has the type
  \<open>error\<close> and the text "processing error: " with the message. Every exception of the
  second parse or walk, a \<open>ParseError\<close> or not, hands the repaired string to the
  salvage function: the type is \<open>text_extraction\<close> when salvage returns, \<open>raw_text\<close>
  when salvage raises and its handler returns, and \<open>error\<close> with the fixed text only
  when the handler raises as well.
\<close>

theorem parse_xml_doc_never_raises:
  assumes "xml0 \<noteq> []"
  shows "\<exists>r. parse_xml_doc lib xml0 = Some r
    \<and> (\<forall>m. structured lib (paragraph_text lib) (sanitize lib xml0) = Inl (OtherException m)
          \<longrightarrow> doc_type r = asc ''error'' \<and> doc_text r = processing_error @ asc '': '' @ m)
    \<and> (\<forall>m e. structured lib (paragraph_text lib) (sanitize lib xml0) = Inl (ParseError m)
          \<longrightarrow> structured lib (paragraph_text_recovery lib) (repair lib (sanitize lib xml0)) = Inl e
          \<longrightarrow> r = extract_text_from_broken_xml lib (repair lib (sanitize lib xml0))
            \<and> (\<forall>res. salvage lib (repair lib (sanitize lib xml0)) = Inr res
                  \<longrightarrow> r = res \<and> doc_type r = asc ''text_extraction'')
            \<and> (\<forall>e1 u. salvage lib (repair lib (sanitize lib xml0)) = Inl e1
                  \<longrightarrow> unescape lib (re_sub (m_tag False) (\<lambda>g. [32])
                        (repair lib (sanitize lib xml0))) = Inr u
                  \<longrightarrow> doc_type r = asc ''raw_text''
                      \<and> doc_text r = strip (re_sub (m_run is_space) (\<lambda>g. [32]) u))
            \<and> (\<forall>e1 e2. salvage lib (repair lib (sanitize lib xml0)) = Inl e1
                  \<longrightarrow> unescape lib (re_sub (m_tag False) (\<lambda>g. [32])
                        (repair lib (sanitize lib xml0))) = Inl e2
                  \<longrightarrow> doc_type r = asc ''error'' \<and> doc_text r = extraction_failed_text))"
proof (cases "structured lib (paragraph_text lib) (sanitize lib xml0)")
  case (Inr res)
  with assms show ?thesis by (simp add: parse_xml_doc_def)
next
  case (Inl e)
  show ?thesis
  proof (cases e)
    case (OtherException m)
    with Inl assms show ?thesis by (simp add: parse_xml_doc_def error_result_def Let_def)
  next
    case (ParseError m)
    with Inl assms have p: "parse_xml_doc lib xml0
        = Some (handle_complex_xml_parsing lib (sanitize lib xml0))"
      by (simp add: parse_xml_doc_def)
    show ?thesis
    proof (cases "structured lib (paragraph_text_recovery lib) (repair lib (sanitize lib xml0))")
      case (Inr res)
      with p Inl ParseError show ?thesis by simp
    next
      case Inl2: (Inl e')
      then have "handle_complex_xml_parsing lib (sanitize lib xml0)
          = extract_text_from_broken_xml lib (repair lib (sanitize lib xml0))"
        by (simp add: handle_complex_xml_parsing_def)
      with p Inl ParseError Inl2 show ?thesis
        using salvage_fields(1) [of lib "repair lib (sanitize lib xml0)"]
        by (auto simp: extract_text_from_broken_xml_def last_resort_result_def)
    qed
  qed
qed

text \<open>
  C1, as the code has it. A non-empty string gets exactly one type. It is the \<open>type\<close>
  attribute of the root element (the empty string when there is none) when the first
  parse and walk succeed, and likewise when they fail with \<open>ParseError\<close> and the parse
  and walk of the repaired string succeed; it is \<open>error\<close> when the first attempt raises
  another exception; and when both attempts fail it is the type the salvage function
  assigns: \<open>text_extraction\<close> when salvage returns, otherwise \<open>raw_text\<close> or
  \<open>error\<close>.
\<close>

theorem doc_type_by_tier:
  assumes "xml0 \<noteq> []"
  shows "\<exists>r. parse_xml_doc lib xml0 = Some r
    \<and> (\<forall>root res. fromstring lib (sanitize lib xml0) = Inr root
          \<longrightarrow> build_result (paragraph_text lib) root = Inr res
          \<longrightarrow> r = res \<and> doc_type r = get_attr root (asc ''type'') [])
    \<and> (\<forall>m. structured lib (paragraph_text lib) (sanitize lib xml0) = Inl (OtherException m)
          \<longrightarrow> doc_type r = asc ''error'')
    \<and> (\<forall>m root res. structured lib (paragraph_text lib) (sanitize lib xml0) = Inl (ParseError m)
          \<longrightarrow> fromstring lib (repair lib (sanitize lib xml0)) = Inr root
          \<longrightarrow> build_result (paragraph_text_recovery lib) root = Inr res
          \<longrightarrow> r = res \<and> doc_type r = get_attr root (asc ''type'') [])
    \<and> (\<forall>m e. structured lib (paragraph_text lib) (sanitize lib xml0) = Inl (ParseError m)
          \<longrightarrow> structured lib (paragraph_text_recovery lib) (repair lib (sanitize lib xml0)) = Inl e
          \<longrightarrow> r = extract_text_from_broken_xml lib (repair lib (sanitize lib xml0))
              \<and> (\<forall>res. salvage lib (repair lib (sanitize lib xml0)) = Inr res
                    \<longrightarrow> doc_type r = asc ''text_extraction'')
              \<and> doc_type r \<in> {asc ''text_extraction'', asc ''raw_text'', asc ''error''})"
proof -
  let ?x = "sanitize lib xml0"
  have ext: "doc_type (extract_text_from_broken_xml lib y)
      \<in> {asc ''text_extraction'', asc ''raw_text'', asc ''error''}" for y
    using extract_cases [of lib y] salvage_fields(1) [of lib y]
    by (auto simp: last_resort_result_def)
  have ext2: "salvage lib y = Inr res \<Longrightarrow> doc_type (extract_text_from_broken_xml lib y) = asc ''text_extraction''" for y res
    using salvage_fields(1) [of lib y res] by (simp add: extract_text_from_broken_xml_def)
  show ?thesis
  proof (cases "structured lib (paragraph_text lib) ?x")
    case (Inr res)
    with assms have "parse_xml_doc lib xml0 = Some res" by (simp add: parse_xml_doc_def)
    moreover from Inr have "\<forall>root res'. fromstring lib ?x = Inr root
          \<longrightarrow> build_result (paragraph_text lib) root = Inr res'
          \<longrightarrow> res = res' \<and> doc_type res = get_attr root (asc ''type'') []"
      using build_result_fields(2) by (auto simp: structured_def)
    ultimately show ?thesis using Inr by auto
  next
    case (Inl e)
    then have nofirst: "\<forall>root res. fromstring lib ?x = Inr root
          \<longrightarrow> build_result (paragraph_text lib) root \<noteq> Inr res"
      by (auto simp: structured_def split: sum.splits)
    show ?thesis
    proof (cases e)
      case (OtherException m)
      with Inl assms have "parse_xml_doc lib xml0 = Some (error_result (OtherException m) ?x)"
        by (simp add: parse_xml_doc_def)
      with Inl OtherException nofirst show ?thesis by (auto simp: error_result_def)
    next
      case (ParseError m)
      with Inl assms have p: "parse_xml_doc lib xml0 = Some (handle_complex_xml_parsing lib ?x)"
        by (simp add: parse_xml_doc_def)
      show ?thesis
      proof (cases "structured lib (paragraph_text_recovery lib) (repair lib ?x)")
        case (Inr res)
        then have h: "handle_complex_xml_parsing lib ?x = res"
          by (simp add: handle_complex_xml_parsing_def)
        from Inr have "\<forall>root res'. fromstring lib (repair lib ?x) = Inr root
          \<longrightarrow> build_result (paragraph_text_recovery lib) root = Inr res'
          \<longrightarrow> res = res' \<and> doc_type res = get_attr root (asc ''type'') []"
          using build_result_fields(2) by (auto simp: structured_def)
        with p h Inl ParseError Inr nofirst show ?thesis by auto
      next
        case Inl2: (Inl e2)
        then have h: "handle_complex_xml_parsing lib ?x = extract_text_from_broken_xml lib (repair lib ?x)"
          by (simp add: handle_complex_xml_parsing_def)
        from Inl2 have nosecond: "\<forall>root res. fromstring lib (repair lib ?x) = Inr root
          \<longrightarrow> build_result (paragraph_text_recovery lib) root \<noteq> Inr res"
          by (auto simp: structured_def split: sum.splits)
        from p h Inl ParseError Inl2 nofirst nosecond ext [of "repair lib ?x"] ext2 [of "repair lib ?x"]
        show ?thesis by auto
      qed
    qed
  qed
qed

text \<open>
  C9. The empty string gives \<open>None\<close>, for every library: no parser and no
  \<open>html.unescape\<close> is consulted. An absent, null or empty field is not parsed by the
  caller and gets no parsed document.
\<close>

theorem empty_input_short_circuits:
  "parse_xml_doc lib [] = None \<and> parse_doc_field lib None = None
   \<and> parse_doc_field lib (Some []) = None"
  by (simp add: parse_xml_doc_def parse_doc_field_def)

section \<open>Tag repair and the ampersand repair\<close>

lemma m_opened_length: "m_opened wd s = Some (g, n) \<Longrightarrow> n = length s"
  by (auto simp: m_opened_def Let_def split: list.splits if_splits)

lemma opened_tags_at_most_one: "length (opened_tags lib s) \<le> 1"
proof -
  have "length (findall_from (m_opened wd) 0 s) \<le> 1" for wd
  proof (induction s)
    case Nil
    show ?case by simp
  next
    case (Cons c cs)
    show ?case
    proof (cases "m_opened wd (c # cs)")
      case None
      with Cons show ?thesis by simp
    next
      case (Some gn)
      obtain g n where gn: "gn = (g, n)" by (cases gn)
      with Some m_opened_length have "n = length (c # cs)" by blast
      with Some gn show ?thesis
        by (simp add: findall_from_skip [of _ "length cs"])
    qed
  qed
  then show ?thesis by (simp add: opened_tags_def re_findall_def)
qed

lemma fix_amp_Nil: "fix_amp nd [] = []"
  by (simp add: fix_amp_def re_sub_def)

lemma fix_amp_Cons:
  "fix_amp nd (c # cs) =
     (if c = 38 \<and> \<not> entity_ahead nd cs then asc ''&amp;'' @ fix_amp nd cs else c # fix_amp nd cs)"
  by (simp add: fix_amp_def re_sub_def m_amp_def)

lemma fix_amp_plain: "38 \<notin> set p \<Longrightarrow> fix_amp nd (p @ t) = p @ fix_amp nd t"
  by (induction p) (auto simp: fix_amp_Cons)

lemma startswith_append: "startswith s p \<longleftrightarrow> (\<exists>t. s = p @ t)"
  unfolding startswith_def
  by (metis append_eq_conv_conj append_take_drop_id)

lemma startswith_fix_amp:
  assumes "startswith s p" and "38 \<notin> set p"
  shows "startswith (fix_amp nd s) p"
  using assms by (auto simp: startswith_append fix_amp_plain)

lemma run_semicolon_fix_amp:
  assumes "run_semicolon cls s" and "\<not> cls 38"
  shows "run_semicolon cls (fix_amp nd s)"
proof -
  from assms(1) obtain t where d: "dropWhile cls s = 59 # t" and ne: "takeWhile cls s \<noteq> []"
    by (auto simp: run_semicolon_def startswith_append asc_def)
  let ?ds = "takeWhile cls s"
  have s: "s = ?ds @ 59 # t" using d by (metis takeWhile_dropWhile_id)
  have all: "\<forall>x \<in> set ?ds. cls x" by (meson set_takeWhileD)
  with assms(2) have no: "38 \<notin> set (?ds @ [59])" by auto
  have n59: "\<not> cls 59" using d by (metis hd_dropWhile list.distinct(1) list.sel(1))
  have "fix_amp nd s = (?ds @ [59]) @ fix_amp nd t"
    using fix_amp_plain [OF no, of nd t] s by simp
  then have f: "fix_amp nd s = ?ds @ 59 # fix_amp nd t" by simp
  have tw: "takeWhile cls (?ds @ 59 # fix_amp nd t) = ?ds"
    using all n59 by (simp add: takeWhile_append2)
  have dw: "dropWhile cls (?ds @ 59 # fix_amp nd t) = 59 # fix_amp nd t"
    using all n59 by (simp add: dropWhile_append2)
  show ?thesis unfolding f run_semicolon_def tw dw using ne
    by (simp add: startswith_def asc_def)
qed

lemma drop_fix_amp:
  assumes "startswith s p" and "38 \<notin> set p"
  shows "drop (length p) (fix_amp nd s) = fix_amp nd (drop (length p) s)"
  using assms by (auto simp: startswith_append fix_amp_plain)

lemma entity_ahead_fix_amp:
  assumes "entity_ahead nd s"
  shows "entity_ahead nd (fix_amp nd s)"
proof -
  have d38: "\<not> uni_digit nd 38" by (simp add: uni_digit_def)
  have h38: "\<not> hex_digit 38" by (simp add: hex_digit_def)
  have lit: "startswith s (asc w) \<Longrightarrow> 38 \<notin> set (asc w) \<Longrightarrow> startswith (fix_amp nd s) (asc w)" for w
    by (rule startswith_fix_amp)
  have dec: "startswith (fix_amp nd s) (asc ''#'') \<and> run_semicolon (uni_digit nd) (drop 1 (fix_amp nd s))"
    if a: "startswith s (asc ''#'')" and b: "run_semicolon (uni_digit nd) (drop 1 s)"
  proof -
    have n: "38 \<notin> set (asc ''#'')" by (simp add: asc_def)
    from drop_fix_amp [OF a n, of nd] have "drop 1 (fix_amp nd s) = fix_amp nd (drop 1 s)"
      by (simp add: asc_def)
    with run_semicolon_fix_amp [OF b d38, of nd] startswith_fix_amp [OF a n, of nd]
    show ?thesis by simp
  qed
  have hex: "startswith (fix_amp nd s) (asc ''#x'') \<and> run_semicolon hex_digit (drop 2 (fix_amp nd s))"
    if a: "startswith s (asc ''#x'')" and b: "run_semicolon hex_digit (drop 2 s)"
  proof -
    have n: "38 \<notin> set (asc ''#x'')" by (simp add: asc_def)
    from drop_fix_amp [OF a n, of nd] have "drop 2 (fix_amp nd s) = fix_amp nd (drop 2 s)"
      by (simp add: asc_def numeral_2_eq_2)
    with run_semicolon_fix_amp [OF b h38, of nd] startswith_fix_amp [OF a n, of nd]
    show ?thesis by simp
  qed
  have n1: "38 \<notin> set (asc ''amp;'')" "38 \<notin> set (asc ''lt;'')" "38 \<notin> set (asc ''gt;'')"
    "38 \<notin> set (asc ''apos;'')" "38 \<notin> set (asc ''quot;'')"
    by (simp_all add: asc_def)
  from assms consider "startswith s (asc ''amp;'')" | "startswith s (asc ''lt;'')"
    | "startswith s (asc ''gt;'')" | "startswith s (asc ''apos;'')" | "startswith s (asc ''quot;'')"
    | "startswith s (asc ''#'') \<and> run_semicolon (uni_digit nd) (drop 1 s)"
    | "startswith s (asc ''#x'') \<and> run_semicolon hex_digit (drop 2 s)"
    unfolding entity_ahead_def by blast
  then show ?thesis
  proof cases
    case 1
    from lit [OF 1 n1(1)] show ?thesis unfolding entity_ahead_def by blast
  next
    case 2
    from lit [OF 2 n1(2)] show ?thesis unfolding entity_ahead_def by blast
  next
    case 3
    from lit [OF 3 n1(3)] show ?thesis unfolding entity_ahead_def by blast
  next
    case 4
    from lit [OF 4 n1(4)] show ?thesis unfolding entity_ahead_def by blast
  next
    case 5
    from lit [OF 5 n1(5)] show ?thesis unfolding entity_ahead_def by blast
  next
    case 6
    with dec show ?thesis unfolding entity_ahead_def by blast
  next
    case 7
    with hex show ?thesis unfolding entity_ahead_def by blast
  qed
qed

lemma fix_amp_escaped: "fix_amp nd (asc ''&amp;'' @ t) = asc ''&amp;'' @ fix_amp nd t"
proof -
  have e: "entity_ahead nd (asc ''amp;'' @ t)"
    by (simp add: entity_ahead_def startswith_def asc_def)
  have n: "38 \<notin> set (asc ''amp;'')" by (simp add: asc_def)
  have "asc ''&amp;'' @ t = 38 # (asc ''amp;'' @ t)" by (simp add: asc_def)
  then have "fix_amp nd (asc ''&amp;'' @ t) = 38 # fix_amp nd (asc ''amp;'' @ t)"
    using e by (simp add: fix_amp_Cons)
  also have "\<dots> = 38 # asc ''amp;'' @ fix_amp nd t" using fix_amp_plain [OF n] by simp
  finally show ?thesis by (simp add: asc_def)
qed

lemma fix_amp_idempotent:
  "fix_amp nd (fix_amp nd s) = fix_amp nd s
   \<and> (entity_ahead nd r \<longrightarrow> fix_amp nd (38 # r) = 38 # fix_amp nd r)"
proof
  show "fix_amp nd (fix_amp nd s) = fix_amp nd s"
  proof (induction s)
    case Nil
    show ?case by (simp add: fix_amp_Nil)
  next
    case (Cons c cs)
    show ?case
    proof (cases "c = 38")
      case False
      with Cons show ?thesis by (simp add: fix_amp_Cons)
    next
      case True
      show ?thesis
      proof (cases "entity_ahead nd cs")
        case False
        with True Cons show ?thesis by (simp add: fix_amp_Cons fix_amp_escaped)
      next
        case e: True
        from entity_ahead_fix_amp [OF e] True e Cons show ?thesis by (simp add: fix_amp_Cons)
      qed
    qed
  qed
  show "entity_ahead nd r \<longrightarrow> fix_amp nd (38 # r) = 38 # fix_amp nd r"
    by (simp add: fix_amp_Cons)
qed

lemma replace_from_same: "old \<noteq> [] \<Longrightarrow> replace_from old old 0 s = s"
proof (induction s rule: length_induct)
  case (1 s)
  show ?case
  proof (cases s)
    case Nil
    then show ?thesis by simp
  next
    case (Cons c cs)
    show ?thesis
    proof (cases "startswith (c # cs) old")
      case False
      with Cons 1 show ?thesis by simp
    next
      case True
      let ?k = "length old - 1"
      have len: "length (drop ?k cs) < length s" using Cons by simp
      from 1 len have ih: "replace_from old old 0 (drop ?k cs) = drop ?k cs" by blast
      from True have t: "take (length old) (c # cs) = old" by (simp add: startswith_def)
      from "1.prems" have lo: "length old = Suc ?k" by (cases old) auto
      have "replace_from old old 0 (c # cs) = old @ replace_from old old ?k cs"
        using True by simp
      also have "\<dots> = old @ drop ?k cs"
        using replace_from_skip [of old old ?k cs] ih by simp
      also have "\<dots> = take (length old) (c # cs) @ drop (length old) (c # cs)"
      proof -
        have "drop (length old) (c # cs) = drop (Suc ?k) (c # cs)" using lo by metis
        then show ?thesis using t by simp
      qed
      finally show ?thesis using Cons by simp
    qed
  qed
qed

lemma str_replace_same: "old \<noteq> [] \<Longrightarrow> str_replace s old old = s"
  by (simp add: str_replace_def replace_from_same)

lemma fix_amp_twice: "fix_amp nd (fix_amp nd s) = fix_amp nd s"
  using fix_amp_idempotent by blast

lemma splice_repaired: "splice_block lib s (fix_amp (nd_table lib) b) = s"
proof -
  have "cdata_open @ fix_amp (nd_table lib) b @ cdata_close \<noteq> []"
    by (simp add: cdata_open_def asc_def)
  then show ?thesis
    by (simp add: splice_block_def fix_amp_twice str_replace_same)
qed

lemma foldl_splice_repaired:
  "foldl (splice_block lib) s (map (fix_amp (nd_table lib)) bs) = s"
  by (induction bs) (simp_all add: splice_repaired)

text \<open>
  The sanitizer on a plain document. No block opens inside a piece or a block, so the
  pattern of line 43 finds the blocks of the document and \<open>str.replace\<close> meets a block
  only where one stands; the loop repairs every block, in whatever order and however
  often a text occurs among the blocks.
\<close>

lemma no_pair_Cons: "no_pair d (c # s) = ((c = 60 \<longrightarrow> s = [] \<or> hd s \<noteq> d) \<and> no_pair d s)"
  by (cases s) auto

lemma no_pair_append:
  "no_pair d (a @ b) = (no_pair d a \<and> no_pair d b \<and> (a \<noteq> [] \<and> b \<noteq> [] \<longrightarrow> \<not> (last a = 60 \<and> hd b = d)))"
  by (induction a) (auto simp: no_pair_Cons)

text \<open>A matcher that needs a given second character does nothing on a text without it.\<close>

lemma sub_from_no_pair:
  assumes m: "\<forall>s g n. m s = Some (g, n) \<longrightarrow> (\<exists>r. s = 60 # d # r)"
  shows "no_pair d s \<Longrightarrow> sub_from m f 0 s = s"
proof (induction s)
  case Nil
  show ?case by simp
next
  case (Cons c cs)
  then have t: "sub_from m f 0 cs = cs" and h: "c = 60 \<longrightarrow> cs = [] \<or> hd cs \<noteq> d"
    by (auto simp: no_pair_Cons)
  have "m (c # cs) = None"
  proof (rule ccontr)
    assume "m (c # cs) \<noteq> None"
    then obtain g n where "m (c # cs) = Some (g, n)" by auto
    with m h show False by fastforce
  qed
  with t show ?case by simp
qed

lemma startswith_Cons2: "startswith s (a # b # p) \<Longrightarrow> \<exists>r. s = a # b # r"
  by (cases s; cases "tl s") (auto simp: startswith_def)

lemma m_sub_fires: "\<forall>s g n. m_sub s = Some (g, n) \<longrightarrow> (\<exists>r. s = 60 # 115 # r)"
  by (auto simp: m_sub_def m_wrap_def asc_def split: if_splits dest!: startswith_Cons2)

lemma m_sup_fires: "\<forall>s g n. m_sup s = Some (g, n) \<longrightarrow> (\<exists>r. s = 60 # 115 # r)"
  by (auto simp: m_sup_def m_wrap_def asc_def split: if_splits dest!: startswith_Cons2)

lemma m_cdata_fires: "\<forall>s g n. m_cdata s = Some (g, n) \<longrightarrow> (\<exists>r. s = 60 # 33 # r)"
  by (auto simp: m_cdata_def m_wrap_def cdata_open_def asc_def split: if_splits dest!: startswith_Cons2)

lemma unwrap_no_pair:
  "no_pair 115 s \<Longrightarrow> re_sub m_sup (\<lambda>g. g) (re_sub m_sub (\<lambda>g. g) s) = s"
  using sub_from_no_pair [OF m_sub_fires, of s] sub_from_no_pair [OF m_sup_fires, of s]
  by (simp add: re_sub_def)

lemma findall_from_no_pair:
  assumes m: "\<forall>s g n. m s = Some (g, n) \<longrightarrow> (\<exists>r. s = 60 # d # r)"
  shows "no_pair d p \<Longrightarrow> (p \<noteq> [] \<and> rest \<noteq> [] \<longrightarrow> \<not> (last p = 60 \<and> hd rest = d))
    \<Longrightarrow> findall_from m 0 (p @ rest) = findall_from m 0 rest"
proof (induction p)
  case Nil
  show ?case by simp
next
  case (Cons c cs)
  have none: "m (c # cs @ rest) = None"
  proof (rule ccontr)
    assume "m (c # cs @ rest) \<noteq> None"
    then obtain g n where "m (c # cs @ rest) = Some (g, n)" by auto
    with m obtain r where r: "c # cs @ rest = 60 # d # r" by blast
    show False
    proof (cases cs)
      case Nil
      with r Cons.prems(2) show False by (cases rest) auto
    next
      case (Cons e es)
      with r Cons.prems(1) show False by auto
    qed
  qed
  have "findall_from m 0 (cs @ rest) = findall_from m 0 rest"
  proof (rule Cons.IH)
    from Cons.prems(1) show "no_pair d cs" by (simp add: no_pair_Cons)
    show "cs \<noteq> [] \<and> rest \<noteq> [] \<longrightarrow> \<not> (last cs = 60 \<and> hd rest = d)"
      using Cons.prems(2) by auto
  qed
  with none show ?case by simp
qed

lemma lazy_dot_block:
  "93 \<notin> set b \<Longrightarrow> lazy_dot True cdata_close (b @ cdata_close @ rest) = Some (b, length b + 3)"
  by (induction b) (auto simp: cdata_close_def asc_def startswith_def)

lemma cdata_open_Cons: "cdata_open = 60 # 33 # asc ''[CDATA[''"
  by (simp add: cdata_open_def asc_def)

lemma length_cdata_open: "length cdata_open = 9"
  by (simp add: cdata_open_def asc_def)

lemma length_cdata_close: "length cdata_close = 3"
  by (simp add: cdata_close_def asc_def)

lemma m_cdata_block:
  "93 \<notin> set b \<Longrightarrow> m_cdata (cdata_open @ b @ cdata_close @ rest) = Some (b, 9 + (length b + 3))"
  by (simp add: m_cdata_def m_wrap_def startswith_def lazy_dot_block length_cdata_open)

lemma findall_block:
  assumes "93 \<notin> set b"
  shows "findall_from m_cdata 0 (cdata_open @ b @ cdata_close @ rest)
    = b # findall_from m_cdata 0 rest"
proof -
  let ?t = "asc ''[CDATA['' @ b @ cdata_close @ rest"
  have e: "cdata_open @ b @ cdata_close @ rest = 60 # 33 # ?t" by (simp add: cdata_open_Cons)
  have l: "length (asc ''[CDATA['') = 7" by (simp add: asc_def)
  have "findall_from m_cdata 0 (60 # 33 # ?t)
      = b # findall_from m_cdata (9 + (length b + 3) - 1) (33 # ?t)"
    using m_cdata_block [OF assms, of rest] unfolding e by simp
  also have "findall_from m_cdata (9 + (length b + 3) - 1) (33 # ?t)
      = findall_from m_cdata 0 (drop (9 + (length b + 3) - 1) (33 # ?t))"
    by (rule findall_from_skip)
  also have "drop (9 + (length b + 3) - 1) (33 # ?t) = rest"
  proof -
    let ?xs = "33 # asc ''[CDATA['' @ b @ cdata_close"
    have a: "33 # ?t = ?xs @ rest" by simp
    have n: "9 + (length b + 3) - 1 = length ?xs" using l by (simp add: length_cdata_close)
    show ?thesis unfolding a n by simp
  qed
  finally show ?thesis unfolding e .
qed

lemma hd_cdata_open: "hd (cdata_open @ x) = 60"
  by (simp add: cdata_open_Cons)

lemma findall_document:
  "plain_document segs rest \<Longrightarrow> findall_from m_cdata 0 (cdata_document segs rest) = map snd segs"
proof (induction segs)
  case Nil
  then have "no_pair 33 rest" by (simp add: plain_document_def plain_def)
  from findall_from_no_pair [OF m_cdata_fires this, of "[]"] show ?case by simp
next
  case (Cons pb segs)
  obtain p b where pb: "pb = (p, b)" by (cases pb)
  let ?x = "cdata_open @ b @ cdata_close @ cdata_document segs rest"
  from Cons.prems pb have p: "no_pair 33 p" and b: "93 \<notin> set b" and r: "plain_document segs rest"
    by (auto simp: plain_document_def plain_def plain_block_def)
  have side: "p \<noteq> [] \<and> ?x \<noteq> [] \<longrightarrow> \<not> (last p = 60 \<and> hd ?x = 33)"
    by (simp add: cdata_open_Cons)
  have "findall_from m_cdata 0 (p @ ?x) = findall_from m_cdata 0 ?x"
    by (rule findall_from_no_pair [OF m_cdata_fires p side])
  with findall_block [OF b] Cons.IH [OF r] pb show ?case by simp
qed

text \<open>Replacing one block by another in a plain document.\<close>

lemma replace_from_no_pair:
  assumes o: "old = 60 # 33 # o'"
  shows "no_pair 33 p \<Longrightarrow> (p \<noteq> [] \<and> rest \<noteq> [] \<longrightarrow> \<not> (last p = 60 \<and> hd rest = 33))
    \<Longrightarrow> replace_from old new 0 (p @ rest) = p @ replace_from old new 0 rest"
proof (induction p)
  case Nil
  show ?case by simp
next
  case (Cons c cs)
  have none: "\<not> startswith (c # cs @ rest) old"
  proof
    assume "startswith (c # cs @ rest) old"
    then obtain r where r: "c # cs @ rest = 60 # 33 # r"
      unfolding o using startswith_Cons2 by blast
    show False
    proof (cases cs)
      case Nil
      with r Cons.prems(2) show False by (cases rest) auto
    next
      case (Cons e es)
      with r Cons.prems(1) show False by auto
    qed
  qed
  have "replace_from old new 0 (cs @ rest) = cs @ replace_from old new 0 rest"
  proof (rule Cons.IH)
    from Cons.prems(1) show "no_pair 33 cs" by (simp add: no_pair_Cons)
    show "cs \<noteq> [] \<and> rest \<noteq> [] \<longrightarrow> \<not> (last cs = 60 \<and> hd rest = 33)"
      using Cons.prems(2) by auto
  qed
  with none show ?case by simp
qed

lemma cdata_block_Cons: "cdata_block b = 60 # 33 # asc ''[CDATA['' @ b @ cdata_close"
  by (simp add: cdata_block_def cdata_open_Cons)

lemma prefix_no_bracket:
  "93 \<notin> set b \<Longrightarrow> 93 \<notin> set c \<Longrightarrow> b @ 93 # 93 # 62 # rest = c @ 93 # 93 # 62 # t \<Longrightarrow> b = c"
proof (induction b arbitrary: c)
  case Nil
  then show ?case by (cases c) auto
next
  case (Cons x xs)
  show ?case
  proof (cases c)
    case Nil
    with Cons.prems show ?thesis by auto
  next
    case (Cons y ys)
    with Cons.prems Cons.IH [of ys] show ?thesis by auto
  qed
qed

lemma startswith_cdata_block:
  assumes "93 \<notin> set b" and "93 \<notin> set c"
  shows "startswith (cdata_block b @ rest) (cdata_block c) \<longleftrightarrow> b = c"
proof
  assume "b = c"
  then show "startswith (cdata_block b @ rest) (cdata_block c)" by (simp add: startswith_def)
next
  assume "startswith (cdata_block b @ rest) (cdata_block c)"
  then obtain t where "cdata_block b @ rest = cdata_block c @ t" by (auto simp: startswith_append)
  then have "b @ 93 # 93 # 62 # rest = c @ 93 # 93 # 62 # t"
    by (simp add: cdata_block_def cdata_close_def asc_def)
  from prefix_no_bracket [OF assms this] show "b = c" .
qed

lemma cdata_block_append: "cdata_block b @ rest = cdata_open @ b @ cdata_close @ rest"
  by (simp add: cdata_block_def)

lemma length_cdata_block: "length (cdata_block b) = Suc (length b + 11)"
  by (simp add: cdata_block_def length_cdata_open length_cdata_close)

lemma replace_block_hit:
  "replace_from (cdata_block c) new 0 (cdata_block c @ rest) = new @ replace_from (cdata_block c) new 0 rest"
proof -
  obtain t where t: "cdata_block c = 60 # t" by (simp add: cdata_block_Cons)
  have l: "length (cdata_block c) - 1 = length t" using t by simp
  have sw: "startswith (60 # t @ rest) (cdata_block c)" using t by (simp add: startswith_def)
  have "replace_from (cdata_block c) new 0 (60 # t @ rest)
      = new @ replace_from (cdata_block c) new (length t) (t @ rest)"
    using sw l by simp
  also have "replace_from (cdata_block c) new (length t) (t @ rest) = replace_from (cdata_block c) new 0 rest"
    using replace_from_skip [of "cdata_block c" new "length t" "t @ rest"] by simp
  finally show ?thesis using t by simp
qed

lemma no_pair_tl_cdata_block:
  assumes "no_pair 33 b"
  shows "no_pair 33 (33 # asc ''[CDATA['' @ b @ cdata_close)"
proof -
  have c: "no_pair 33 cdata_close" by (simp add: cdata_close_def asc_def)
  have bc: "no_pair 33 (b @ cdata_close)"
    using assms c by (simp add: no_pair_append cdata_close_def asc_def)
  have o: "no_pair 33 (33 # asc ''[CDATA['')" by (simp add: asc_def)
  have "no_pair 33 ((33 # asc ''[CDATA['') @ (b @ cdata_close))"
    unfolding no_pair_append [of 33 "33 # asc ''[CDATA[''" "b @ cdata_close"]
    using o bc by (simp add: asc_def)
  then show ?thesis by simp
qed

lemma replace_block_miss:
  assumes "93 \<notin> set b" and "93 \<notin> set c" and "b \<noteq> c" and "no_pair 33 b"
  shows "replace_from (cdata_block c) new 0 (cdata_block b @ rest) = cdata_block b @ replace_from (cdata_block c) new 0 rest"
proof -
  let ?t = "33 # asc ''[CDATA['' @ b @ cdata_close"
  have w: "cdata_block b = 60 # ?t" by (simp add: cdata_block_Cons)
  have o: "cdata_block c = 60 # 33 # (asc ''[CDATA['' @ c @ cdata_close)" by (simp add: cdata_block_Cons)
  have ns: "\<not> startswith (60 # ?t @ rest) (cdata_block c)"
    using startswith_cdata_block [OF assms(1,2), of rest] assms(3) w by simp
  have side: "?t \<noteq> [] \<and> rest \<noteq> [] \<longrightarrow> \<not> (last ?t = 60 \<and> hd rest = 33)"
    by (simp add: cdata_close_def asc_def)
  have "replace_from (cdata_block c) new 0 (?t @ rest) = ?t @ replace_from (cdata_block c) new 0 rest"
    by (rule replace_from_no_pair [OF o no_pair_tl_cdata_block [OF assms(4)] side])
  with ns show ?thesis unfolding w by simp
qed

lemma replace_document:
  assumes c: "93 \<notin> set c"
  shows "list_all (\<lambda>(p, b). no_pair 33 p \<and> no_pair 33 b \<and> 93 \<notin> set b) segs \<Longrightarrow> no_pair 33 rest
    \<Longrightarrow> replace_from (cdata_block c) (cdata_block c') 0 (cdata_document segs rest)
      = cdata_document (map (\<lambda>(p, b). (p, if b = c then c' else b)) segs) rest"
proof (induction segs)
  case Nil
  have o: "cdata_block c = 60 # 33 # (asc ''[CDATA['' @ c @ cdata_close)" by (simp add: cdata_block_Cons)
  have "replace_from (cdata_block c) (cdata_block c') 0 (rest @ []) = rest @ replace_from (cdata_block c) (cdata_block c') 0 []"
    by (rule replace_from_no_pair [OF o Nil.prems(2)]) simp
  then show ?case by simp
next
  case (Cons pb segs)
  obtain p b where pb: "pb = (p, b)" by (cases pb)
  from Cons.prems pb have p: "no_pair 33 p" and b: "no_pair 33 b" "93 \<notin> set b"
    and r: "list_all (\<lambda>(p, b). no_pair 33 p \<and> no_pair 33 b \<and> 93 \<notin> set b) segs"
    by auto
  let ?x = "cdata_block b @ cdata_document segs rest"
  have o: "cdata_block c = 60 # 33 # (asc ''[CDATA['' @ c @ cdata_close)" by (simp add: cdata_block_Cons)
  have d: "cdata_document (pb # segs) rest = p @ ?x" by (simp add: pb cdata_block_def)
  have side: "p \<noteq> [] \<and> ?x \<noteq> [] \<longrightarrow> \<not> (last p = 60 \<and> hd ?x = 33)"
    by (simp add: cdata_block_Cons)
  have 1: "replace_from (cdata_block c) (cdata_block c') 0 (p @ ?x) = p @ replace_from (cdata_block c) (cdata_block c') 0 ?x"
    by (rule replace_from_no_pair [OF o p side])
  have ih: "replace_from (cdata_block c) (cdata_block c') 0 (cdata_document segs rest)
      = cdata_document (map (\<lambda>(p, b). (p, if b = c then c' else b)) segs) rest"
    by (rule Cons.IH [OF r Cons.prems(2)])
  show ?case
  proof (cases "b = c")
    case True
    with 1 ih replace_block_hit [of c "cdata_block c'" "cdata_document segs rest"] show ?thesis
      unfolding d by (simp add: pb cdata_block_def)
  next
    case False
    with 1 ih replace_block_miss [OF b(2) c False b(1), of "cdata_block c'" "cdata_document segs rest"] show ?thesis
      unfolding d by (simp add: pb cdata_block_def)
  qed
qed

lemma splice_document:
  assumes "93 \<notin> set c"
    and "list_all (\<lambda>(p, b). no_pair 33 p \<and> no_pair 33 b \<and> 93 \<notin> set b) segs" and "no_pair 33 rest"
  shows "splice_block lib (cdata_document segs rest) c
    = cdata_document (map (\<lambda>(p, b). (p, splice_one (nd_table lib) c b)) segs) rest"
proof -
  have ne: "cdata_open \<noteq> []" by (simp add: cdata_open_Cons)
  show ?thesis
    using replace_document [OF assms, of "fix_amp (nd_table lib) c"] ne
    by (simp add: splice_block_def str_replace_def cdata_block_def splice_one_def)
qed

text \<open>The repair keeps a block free of the pairs and of the bracket.\<close>

lemma hd_fix_amp: "s \<noteq> [] \<Longrightarrow> fix_amp nd s \<noteq> [] \<and> hd (fix_amp nd s) = hd s"
  by (cases s) (auto simp: fix_amp_Cons asc_def)

lemma fix_amp_empty: "fix_amp nd s = [] \<longleftrightarrow> s = []"
  by (cases s) (auto simp: fix_amp_Cons fix_amp_Nil asc_def)

lemma no_pair_fix_amp: "no_pair d s \<Longrightarrow> no_pair d (fix_amp nd s)"
proof (induction s)
  case Nil
  show ?case by (simp add: fix_amp_Nil)
next
  case (Cons c cs)
  then have ih: "no_pair d (fix_amp nd cs)" and h: "c = 60 \<longrightarrow> cs = [] \<or> hd cs \<noteq> d"
    by (auto simp: no_pair_Cons)
  have hd: "cs \<noteq> [] \<Longrightarrow> hd (fix_amp nd cs) = hd cs" using hd_fix_amp by blast
  show ?case
  proof (cases "c = 38 \<and> \<not> entity_ahead nd cs")
    case True
    then have "fix_amp nd (c # cs) = 38 # 97 # 109 # 112 # 59 # fix_amp nd cs"
      by (simp add: fix_amp_Cons asc_def)
    with ih show ?thesis by (simp add: no_pair_Cons)
  next
    case False
    then have "fix_amp nd (c # cs) = c # fix_amp nd cs" by (auto simp: fix_amp_Cons)
    with ih h hd show ?thesis by (auto simp: no_pair_Cons fix_amp_empty)
  qed
qed

lemma bracket_fix_amp: "93 \<notin> set s \<Longrightarrow> 93 \<notin> set (fix_amp nd s)"
  by (induction s) (auto simp: fix_amp_Nil fix_amp_Cons asc_def)

lemma plain_block_fix_amp: "plain_block b \<Longrightarrow> plain_block (fix_amp nd b)"
  by (simp add: plain_block_def plain_def no_pair_fix_amp bracket_fix_amp)

lemma spliced_refl: "spliced nd {} segs segs"
  by (simp add: spliced_def list_all2_same)

lemma spliced_step:
  assumes "spliced nd S cur orig"
  shows "spliced nd (insert c S) (map (\<lambda>(p, b). (p, splice_one nd c b)) cur) orig"
  using assms unfolding spliced_def list_all2_map1
  by (rule list_all2_mono) (auto simp: splice_one_def fix_amp_twice split: prod.splits)

lemma spliced_plain:
  assumes "spliced nd S cur orig" and "list_all (\<lambda>(p, b). plain p \<and> plain_block b) orig"
  shows "list_all (\<lambda>(p, b). plain p \<and> plain_block b) cur"
  using assms unfolding spliced_def
proof (induction cur orig rule: list_all2_induct)
  case Nil
  show ?case by simp
next
  case (Cons x xs y ys)
  then show ?case by (cases x; cases y) (auto simp: plain_block_fix_amp)
qed

lemma spliced_all:
  assumes "spliced nd S cur orig" and "snd ` set orig \<subseteq> S"
  shows "cur = repaired nd orig"
  using assms unfolding spliced_def repaired_def
proof (induction cur orig rule: list_all2_induct)
  case Nil
  show ?case by simp
next
  case (Cons x xs y ys)
  then show ?case by (cases x; cases y) auto
qed

lemma plain_document_weaker:
  "list_all (\<lambda>(p, b). plain p \<and> plain_block b) segs
    \<Longrightarrow> list_all (\<lambda>(p, b). no_pair 33 p \<and> no_pair 33 b \<and> 93 \<notin> set b) segs"
  by (induction segs) (auto simp: plain_def plain_block_def)

lemma foldl_document:
  assumes o: "list_all (\<lambda>(p, b). plain p \<and> plain_block b) orig" and r: "plain rest"
  shows "set cs \<subseteq> snd ` set orig \<Longrightarrow> spliced nd S cur orig \<Longrightarrow> nd = nd_table lib
    \<Longrightarrow> \<exists>cur'. foldl (splice_block lib) (cdata_document cur rest) cs = cdata_document cur' rest
          \<and> spliced nd (S \<union> set cs) cur' orig"
proof (induction cs arbitrary: cur S)
  case Nil
  then show ?case by auto
next
  case (Cons c cs)
  let ?cur = "map (\<lambda>(p, b). (p, splice_one (nd_table lib) c b)) cur"
  from Cons.prems(1) obtain q where "(q, c) \<in> set orig" by auto
  with o have c: "93 \<notin> set c" by (auto simp: list_all_iff plain_block_def)
  from spliced_plain [OF Cons.prems(2) o] have pc: "list_all (\<lambda>(p, b). plain p \<and> plain_block b) cur" .
  from r have r33: "no_pair 33 rest" by (simp add: plain_def)
  have 1: "splice_block lib (cdata_document cur rest) c = cdata_document ?cur rest"
    by (rule splice_document [OF c plain_document_weaker [OF pc] r33])
  from spliced_step [OF Cons.prems(2), of c] Cons.prems(3)
  have 2: "spliced nd (insert c S) ?cur orig" by simp
  from Cons.prems(1) have 3: "set cs \<subseteq> snd ` set orig" by simp
  from Cons.IH [OF 3 2 Cons.prems(3)] 1 show ?case by simp
qed

lemma no_pair_document:
  "list_all (\<lambda>(p, b). plain p \<and> plain_block b) segs \<Longrightarrow> plain rest
    \<Longrightarrow> no_pair 115 (cdata_document segs rest)"
proof (induction segs)
  case Nil
  then show ?case by (simp add: plain_def)
next
  case (Cons pb segs)
  obtain p b where pb: "pb = (p, b)" by (cases pb)
  from Cons pb have p: "no_pair 115 p" and b: "no_pair 115 b" and ih: "no_pair 115 (cdata_document segs rest)"
    by (auto simp: plain_def plain_block_def)
  have o: "no_pair 115 cdata_open" by (simp add: cdata_open_def asc_def)
  have c: "no_pair 115 cdata_close" by (simp add: cdata_close_def asc_def)
  have 1: "no_pair 115 (cdata_close @ cdata_document segs rest)"
    using ih by (simp add: cdata_close_def asc_def no_pair_Cons)
  have 2: "no_pair 115 (b @ cdata_close @ cdata_document segs rest)"
    unfolding no_pair_append [of 115 b] using b 1 by (simp add: cdata_close_def asc_def)
  have 3: "no_pair 115 (cdata_open @ b @ cdata_close @ cdata_document segs rest)"
    using 2 by (simp add: cdata_open_def asc_def no_pair_Cons)
  have "no_pair 115 (p @ cdata_open @ b @ cdata_close @ cdata_document segs rest)"
    unfolding no_pair_append [of 115 p] using p 3 by (simp add: cdata_open_Cons)
  then show ?case by (simp add: pb)
qed

lemma sanitize_document:
  assumes "plain_document segs rest"
  shows "sanitize lib (cdata_document segs rest) = cdata_document (repaired (nd_table lib) segs) rest"
proof -
  from assms have o: "list_all (\<lambda>(p, b). plain p \<and> plain_block b) segs" and r: "plain rest"
    by (simp_all add: plain_document_def)
  have u: "re_sub m_sup (\<lambda>g. g) (re_sub m_sub (\<lambda>g. g) (cdata_document segs rest)) = cdata_document segs rest"
    by (rule unwrap_no_pair [OF no_pair_document [OF o r]])
  have f: "re_findall m_cdata (cdata_document segs rest) = map snd segs"
    using findall_document [OF assms] by (simp add: re_findall_def)
  from foldl_document [OF o r, of "map snd segs" "nd_table lib" "{}" segs lib] spliced_refl
  obtain cur where c: "foldl (splice_block lib) (cdata_document segs rest) (map snd segs) = cdata_document cur rest"
    and i: "spliced (nd_table lib) (set (map snd segs)) cur segs" by auto
  from spliced_all [OF i] have "cur = repaired (nd_table lib) segs" by simp
  with c u f show ?thesis by (simp add: sanitize_def Let_def)
qed

lemma plain_document_repaired: "plain_document segs rest \<Longrightarrow> plain_document (repaired nd segs) rest"
  unfolding plain_document_def repaired_def
  by (induction segs) (auto simp: plain_block_fix_amp)

lemma repaired_twice: "repaired nd (repaired nd segs) = repaired nd segs"
  by (induction segs) (auto simp: repaired_def fix_amp_twice)

lemma sanitize_plain_idem:
  assumes "plain_document segs rest"
  shows "sanitize lib (sanitize lib (cdata_document segs rest)) = sanitize lib (cdata_document segs rest)"
  using sanitize_document [OF assms, of lib] sanitize_document [OF plain_document_repaired [OF assms], of lib "nd_table lib"]
  by (simp add: repaired_twice)

text \<open>
  C5, as the code has it. A second run of the sanitizer returns the output of the first
  unchanged whenever the first run did its two steps to the end: the output holds no
  \<open>sub\<close> or \<open>sup\<close> pair that a run would unwrap, and its CDATA blocks are the
  repaired copies of the blocks the first run found. This is so for every plain document
  of text pieces and CDATA blocks: there the output is the document with every block
  repaired, and a second run changes nothing. The ampersand repair itself is idempotent,
  and an ampersand in front of a recognised entity is kept as it is.
\<close>

theorem sanitize_idempotent_when_repaired:
  "(re_sub m_sup (\<lambda>g. g) (re_sub m_sub (\<lambda>g. g) (sanitize lib s)) = sanitize lib s
      \<longrightarrow> re_findall m_cdata (sanitize lib s)
          = map (fix_amp (nd_table lib))
              (re_findall m_cdata (re_sub m_sup (\<lambda>g. g) (re_sub m_sub (\<lambda>g. g) s)))
      \<longrightarrow> sanitize lib (sanitize lib s) = sanitize lib s)
    \<and> (plain_document segs rest
      \<longrightarrow> sanitize lib (cdata_document segs rest)
            = cdata_document (repaired (nd_table lib) segs) rest
        \<and> sanitize lib (sanitize lib (cdata_document segs rest))
            = sanitize lib (cdata_document segs rest))
    \<and> fix_amp (nd_table lib) (fix_amp (nd_table lib) b) = fix_amp (nd_table lib) b
    \<and> (entity_ahead (nd_table lib) r
          \<longrightarrow> fix_amp (nd_table lib) (38 # r) = 38 # fix_amp (nd_table lib) r)"
proof (intro conjI impI)
  assume h1: "re_sub m_sup (\<lambda>g. g) (re_sub m_sub (\<lambda>g. g) (sanitize lib s)) = sanitize lib s"
    and h2: "re_findall m_cdata (sanitize lib s)
      = map (fix_amp (nd_table lib))
          (re_findall m_cdata (re_sub m_sup (\<lambda>g. g) (re_sub m_sub (\<lambda>g. g) s)))"
  have "sanitize lib (sanitize lib s)
      = foldl (splice_block lib) (sanitize lib s) (re_findall m_cdata (sanitize lib s))"
    using h1 by (simp add: sanitize_def [of lib "sanitize lib s"] Let_def)
  also have "\<dots> = sanitize lib s"
    unfolding h2 by (rule foldl_splice_repaired)
  finally show "sanitize lib (sanitize lib s) = sanitize lib s" .
next
  assume "plain_document segs rest"
  then show "sanitize lib (cdata_document segs rest)
      = cdata_document (repaired (nd_table lib) segs) rest"
    by (rule sanitize_document)
next
  assume "plain_document segs rest"
  then show "sanitize lib (sanitize lib (cdata_document segs rest))
      = sanitize lib (cdata_document segs rest)"
    by (rule sanitize_plain_idem)
next
  show "fix_amp (nd_table lib) (fix_amp (nd_table lib) b) = fix_amp (nd_table lib) b"
    by (rule fix_amp_twice)
next
  assume "entity_ahead (nd_table lib) r"
  then show "fix_amp (nd_table lib) (38 # r) = 38 # fix_amp (nd_table lib) r"
    by (simp add: fix_amp_Cons)
qed

section \<open>The runs\<close>

lemma c6_nonempty: "c6_input \<noteq> []"
  by (simp add: c6_input_def asc_def)

lemma c6_sanitize: "sanitize ref_lib c6_input = c6_input"
  by (simp add: sanitize_def c6_input_def splice_block_def str_defs re_defs ref_lib_def)

lemma c6_first_parse: "fromstring ref_lib c6_input = Inl (ParseError (asc ''not well-formed''))"
  by (simp add: c6_input_def str_defs re_defs xml_defs ref_lib_def skip_numeral)

lemma c6_repair: "repair ref_lib c6_input = c6_repaired"
  by (simp add: repair_def opened_tags_def c6_input_def c6_repaired_def str_defs re_defs ref_lib_def)

lemma c6_second_parse: "fromstring ref_lib c6_repaired = Inr c6_tree"
  by (simp add: c6_repaired_def c6_tree_def str_defs re_defs xml_defs ref_lib_def skip_numeral)

lemma c6_walk: "build_result (paragraph_text_recovery ref_lib) c6_tree = Inr c6_result"
  by (simp add: c6_tree_def c6_result_def c6_sections_def c6_text_def str_defs re_defs html_defs
      walk_defs ref_lib_def skip_numeral)

lemma c6_run: "parse_xml_doc ref_lib c6_input = Some c6_result"
  by (simp add: parse_xml_doc_def handle_complex_xml_parsing_def structured_def c6_nonempty
      c6_sanitize c6_first_parse c6_repair c6_second_parse c6_walk)


lemmas pipeline_defs = parse_xml_doc_def handle_complex_xml_parsing_def structured_def
  sanitize_def splice_block_def repair_def opened_tags_def

lemmas ref_run = pipeline_defs str_defs re_defs xml_defs html_defs walk_defs ref_lib_def
  skip_numeral

text \<open>
  C1 fails as stated: a well-formed document gets the type its root declares, here
  \<open>EE\<close>, not \<open>structured\<close>; and a string that neither parse accepts and from which
  salvage recovers a paragraph gets \<open>text_extraction\<close>, not \<open>salvaged\<close>.
\<close>

theorem doc_type_counterexample:
  "map_option doc_type
     (parse_xml_doc ref_lib
        (asc ''<DOC title='' @ [34] @ asc ''T'' @ [34] @ asc '' type='' @ [34] @ asc ''EE'' @ [34]
         @ asc ''></DOC>'')) = Some (asc ''EE'')
   \<and> asc ''EE'' \<notin> {asc ''structured'', asc ''recovered'', asc ''salvaged'', asc ''raw_text'',
        asc ''error''}
   \<and> map_option doc_type (parse_xml_doc ref_lib (asc ''<X><PARAGRAPH>note</PARAGRAPH>''))
       = Some (asc ''text_extraction'')
   \<and> map_option doc_text (parse_xml_doc ref_lib (asc ''<X><PARAGRAPH>note</PARAGRAPH>''))
       = Some (header no_title @ [10] @ asc ''- note'')"
  by (simp add: ref_run salvage_defs)


text \<open>
  The theorem for C1 at a well-formed document.
\<close>

theorem doc_type_by_tier_witness:
  "asc ''<DOC type='' @ [34] @ asc ''EE'' @ [34] @ asc ''/>'' \<noteq> []
   \<and> fromstring ref_lib (sanitize ref_lib (asc ''<DOC type='' @ [34] @ asc ''EE'' @ [34] @ asc ''/>''))
       = Inr (Element (asc ''DOC'') [(asc ''type'', asc ''EE'')] None [])
   \<and> build_result (paragraph_text ref_lib) (Element (asc ''DOC'') [(asc ''type'', asc ''EE'')] None [])
       = Inr \<lparr>doc_title = [], doc_type = asc ''EE'', doc_sections = Some [], doc_text = [],
              doc_error = None, doc_raw = None\<rparr>
   \<and> parse_xml_doc ref_lib (asc ''<DOC type='' @ [34] @ asc ''EE'' @ [34] @ asc ''/>'')
       = Some \<lparr>doc_title = [], doc_type = asc ''EE'', doc_sections = Some [], doc_text = [],
              doc_error = None, doc_raw = None\<rparr>
   \<and> get_attr (Element (asc ''DOC'') [(asc ''type'', asc ''EE'')] None []) (asc ''type'') []
       = asc ''EE''"
proof -
  let ?x = "asc ''<DOC type='' @ [34] @ asc ''EE'' @ [34] @ asc ''/>''"
  let ?root = "Element (asc ''DOC'') [(asc ''type'', asc ''EE'')] None []"
  let ?res = "\<lparr>doc_title = [], doc_type = asc ''EE'', doc_sections = Some [], doc_text = [],
              doc_error = None, doc_raw = None\<rparr>"
  have ne: "?x \<noteq> []" by (simp add: asc_def)
  have p: "fromstring ref_lib (sanitize ref_lib ?x) = Inr ?root"
    by (simp add: ref_run)
  have w: "build_result (paragraph_text ref_lib) ?root = Inr ?res"
    by (simp add: ref_run)
  from doc_type_by_tier [OF ne, of ref_lib] obtain r where
    r: "parse_xml_doc ref_lib ?x = Some r"
    and t: "\<forall>root res. fromstring ref_lib (sanitize ref_lib ?x) = Inr root
          \<longrightarrow> build_result (paragraph_text ref_lib) root = Inr res
          \<longrightarrow> r = res \<and> doc_type r = get_attr root (asc ''type'') []"
    by blast
  from t p w have "r = ?res" and "doc_type r = get_attr ?root (asc ''type'') []" by blast+
  with r ne p w show ?thesis by simp
qed

text \<open>
  The theorem for C2 with an \<open>html.unescape\<close> that raises: in the walk of tier 1, and
  in the salvage function and its handler behind two failed parses.
\<close>

theorem never_raises_witness:
  "one_paragraph ''x'' \<noteq> []
   \<and> structured faulty_lib (paragraph_text faulty_lib) (sanitize faulty_lib (one_paragraph ''x''))
       = Inl (OtherException (asc ''ValueError''))
   \<and> map_option doc_type (parse_xml_doc faulty_lib (one_paragraph ''x'')) = Some (asc ''error'')
   \<and> map_option doc_text (parse_xml_doc faulty_lib (one_paragraph ''x''))
       = Some (processing_error @ asc '': ValueError'')
   \<and> salvage faulty_lib (repair faulty_lib (sanitize faulty_lib (asc ''<X><PARAGRAPH>n</PARAGRAPH>'')))
       = Inl (OtherException (asc ''ValueError''))
   \<and> parse_xml_doc faulty_lib (asc ''<X><PARAGRAPH>n</PARAGRAPH>'') = Some last_resort_result"
proof -
  let ?x = "one_paragraph ''x''"
  let ?y = "asc ''<X><PARAGRAPH>n</PARAGRAPH>''"
  let ?z = "repair faulty_lib (sanitize faulty_lib ?y)"
  have ne: "?x \<noteq> []" by (simp add: one_paragraph_def asc_def)
  have f: "structured faulty_lib (paragraph_text faulty_lib) (sanitize faulty_lib ?x)
      = Inl (OtherException (asc ''ValueError''))"
    by (simp add: one_paragraph_def faulty_lib_def ref_run)
  from parse_xml_doc_never_raises [OF ne, of faulty_lib] f obtain r where
    "parse_xml_doc faulty_lib ?x = Some r" "doc_type r = asc ''error''"
    "doc_text r = processing_error @ asc '': '' @ asc ''ValueError''"
    by blast
  then have first: "map_option doc_type (parse_xml_doc faulty_lib ?x) = Some (asc ''error'')"
    "map_option doc_text (parse_xml_doc faulty_lib ?x) = Some (processing_error @ asc '': ValueError'')"
    by (simp_all add: asc_def)
  have z: "?z = ?y" by (simp add: faulty_lib_def ref_run)
  have s: "salvage faulty_lib ?z = Inl (OtherException (asc ''ValueError''))"
    unfolding z by (simp add: faulty_lib_def ref_run salvage_defs)
  have p: "parse_xml_doc faulty_lib ?y = Some last_resort_result"
    by (simp add: faulty_lib_def ref_run salvage_defs)
  from ne f first s p show ?thesis by simp
qed

lemma picky_first: "structured picky_lib (paragraph_text picky_lib) (sanitize picky_lib c6_input)
     = Inl (ParseError (asc ''not well-formed''))"
  by (simp add: picky_lib_def c6_input_def ref_run)

lemma picky_repair: "repair picky_lib (sanitize picky_lib c6_input) = c6_repaired"
  by (simp add: picky_lib_def c6_input_def c6_repaired_def ref_run)

lemma picky_second: "structured picky_lib (paragraph_text_recovery picky_lib) c6_repaired
     = Inl (OtherException (asc ''ValueError''))"
  by (simp add: picky_lib_def c6_repaired_def ref_run)

lemma picky_salvage: "salvage picky_lib c6_repaired
  = Inr \<lparr>doc_title = asc ''T'', doc_type = asc ''text_extraction'', doc_sections = None,
         doc_text = c6_text, doc_error = None, doc_raw = None\<rparr>"
  by (simp add: picky_lib_def c6_repaired_def c6_text_def ref_run salvage_defs)

text \<open>
  C2 fails as stated: an unexpected exception in the walk of tier 2 is no \<open>error\<close>
  result. The first parse rejects the bare ampersand, the second parse succeeds,
  \<open>html.unescape\<close> raises in the walk, and the salvage function returns the text with
  the type \<open>text_extraction\<close>.
\<close>

theorem tier2_fault_not_error:
  "structured picky_lib (paragraph_text_recovery picky_lib)
       (repair picky_lib (sanitize picky_lib c6_input))
     = Inl (OtherException (asc ''ValueError''))
   \<and> map_option doc_type (parse_xml_doc picky_lib c6_input) = Some (asc ''text_extraction'')
   \<and> asc ''text_extraction'' \<noteq> asc ''error''"
  by (simp add: picky_repair picky_second picky_first picky_salvage parse_xml_doc_def
      handle_complex_xml_parsing_def extract_text_from_broken_xml_def c6_nonempty)

text \<open>
  C3 fails as stated: the string is neither empty nor white space, and its text is
  empty.
\<close>

theorem text_nonempty_counterexample:
  "strip (asc ''<DOC></DOC>'') \<noteq> []
   \<and> map_option doc_text (parse_xml_doc ref_lib (asc ''<DOC></DOC>'')) = Some []"
  by (simp add: ref_run)

text \<open>
  The theorem for C3 at a document without title and content, and at a short string from
  which nothing is recovered.
\<close>

theorem text_empty_witness:
  "parse_xml_doc ref_lib (asc ''<A/>'')
     = Some \<lparr>doc_title = [], doc_type = [], doc_sections = Some [], doc_text = [],
             doc_error = None, doc_raw = None\<rparr>
   \<and> parse_xml_doc ref_lib (asc ''hi'')
     = Some \<lparr>doc_title = no_title, doc_type = asc ''text_extraction'', doc_sections = None,
             doc_text = header no_title @ [10, 10] @ asc ''- '' @ extraction_failed,
             doc_error = None, doc_raw = None\<rparr>
   \<and> startswith (header no_title @ [10, 10] @ asc ''- '' @ extraction_failed) (header no_title)
   \<and> length (header no_title) < length (header no_title @ [10, 10] @ asc ''- '' @ extraction_failed)
   \<and> structured ref_lib (paragraph_text ref_lib) (sanitize ref_lib (asc ''hi''))
       = Inl (ParseError (asc ''not well-formed''))
   \<and> structured ref_lib (paragraph_text_recovery ref_lib) (repair ref_lib (sanitize ref_lib (asc ''hi'')))
       = Inl (ParseError (asc ''not well-formed''))
   \<and> unwrap_markup (repair ref_lib (sanitize ref_lib (asc ''hi''))) = asc ''hi''
   \<and> re_findall m_article_title (asc ''hi'') = []
   \<and> traverse (clean_text ref_lib) (re_findall m_paragraph (asc ''hi'')) = Inr []
   \<and> unescape ref_lib (re_sub (m_tag False) (\<lambda>g. [32]) (asc ''hi'')) = Inr (asc ''hi'')
   \<and> filter (\<lambda>s. 10 < length (strip s))
         (re_split m_sentence_end (strip (re_sub (m_run is_space) (\<lambda>g. [32]) (asc ''hi'')))) = []"
proof -
  let ?r = "\<lparr>doc_title = [], doc_type = [], doc_sections = Some ([] :: section_data list),
        doc_text = [], doc_error = None, doc_raw = None\<rparr>"
  let ?q = "\<lparr>doc_title = no_title, doc_type = asc ''text_extraction'',
        doc_sections = (None :: section_data list option),
        doc_text = header no_title @ [10, 10] @ asc ''- '' @ extraction_failed,
        doc_error = None, doc_raw = None\<rparr>"
  let ?x = "repair ref_lib (sanitize ref_lib (asc ''hi''))"
  have p: "parse_xml_doc ref_lib (asc ''<A/>'') = Some ?r" by (simp add: ref_run)
  have s1: "structured ref_lib (paragraph_text ref_lib) (sanitize ref_lib (asc ''hi''))
      = Inl (ParseError (asc ''not well-formed''))"
    by (simp add: ref_run)
  have ne: "asc ''hi'' \<noteq> []" by (simp add: asc_def)
  define q where "q = handle_complex_xml_parsing ref_lib (sanitize ref_lib (asc ''hi''))"
  have q: "parse_xml_doc ref_lib (asc ''hi'') = Some q"
    unfolding q_def using ne s1 by (simp add: parse_xml_doc_def)
  have s2: "structured ref_lib (paragraph_text_recovery ref_lib) ?x
      = Inl (ParseError (asc ''not well-formed''))"
    by (simp add: ref_run)
  have u: "unwrap_markup ?x = asc ''hi''" by (simp add: ref_run)
  have h1: "filter (\<lambda>t. strip t \<noteq> []) (re_findall m_article_title (unwrap_markup ?x)) = []"
    unfolding u by (simp add: ref_run)
  have h1': "re_findall m_article_title (asc ''hi'') = []" by (simp add: ref_run)
  have h2: "traverse (clean_text ref_lib) (re_findall m_paragraph (unwrap_markup ?x)) = Inr []"
    unfolding u by (simp add: ref_run)
  have h3: "filter (\<lambda>c. c \<noteq> []) ([] :: ustr list) = []" by simp
  have h4: "unescape ref_lib (re_sub (m_tag False) (\<lambda>g. [32]) (unwrap_markup ?x)) = Inr (asc ''hi'')"
    unfolding u by (simp add: ref_run)
  have h5: "filter (\<lambda>s. 10 < length (strip s))
         (re_split m_sentence_end (strip (re_sub (m_run is_space) (\<lambda>g. [32]) (asc ''hi'')))) = []"
    by (simp add: ref_run)
  from text_empty_only_without_content [OF q] s1 s2 h1 h2 h3 h4 h5
  have t: "doc_text q = header (doc_title q) @ [10, 10] @ asc ''- '' @ extraction_failed"
    by blast
  have "q = extract_text_from_broken_xml ref_lib ?x"
    unfolding q_def using s2 by (simp add: handle_complex_xml_parsing_def)
  then have f: "doc_title q = no_title" "doc_type q = asc ''text_extraction''"
    "doc_sections q = None" "doc_error q = None" "doc_raw q = None"
    by (simp_all add: ref_run salvage_defs)
  from t f have "q = ?q" by simp
  with p q s1 s2 u h1' h2 h4 h5 text_empty_only_without_content [OF p] show ?thesis
    unfolding u by (simp add: startswith_prefix)
qed

text \<open>
  C4 at a document cut off behind two opening tags: the pattern finds the last tag only,
  one closing tag is appended, the second parse fails and the salvage function takes
  over. By \<open>opened_tags_at_most_one\<close> the pattern never finds more than one tag.
\<close>

theorem tag_repair_closes_last_tag_only:
  "opened_tags ref_lib (asc ''<DOC><SECTION>text'') = [asc ''SECTION'']
   \<and> repair ref_lib (asc ''<DOC><SECTION>text'') = asc ''<DOC><SECTION>text</SECTION>''
   \<and> map_option doc_type (parse_xml_doc ref_lib (asc ''<DOC><SECTION>text''))
       = Some (asc ''text_extraction'')"
  by (simp add: ref_run salvage_defs)

text \<open>
  C5 fails as stated, in two ways. Unwrapping nested \<open>sub\<close> tags leaves a pair that
  the next run unwraps. And the splice replaces a block wherever its text occurs: where
  one block's text holds another block, the first replacement changes it, the second
  one no longer finds it, and a bare ampersand is left for the next run.
\<close>

theorem sanitize_not_idempotent:
  "sanitize ref_lib (asc ''<sub><sub>a</sub></sub>'') = asc ''<sub>a</sub>''
   \<and> sanitize ref_lib (sanitize ref_lib (asc ''<sub><sub>a</sub></sub>'')) = asc ''a''
   \<and> sanitize ref_lib (sanitize ref_lib (asc ''<sub><sub>a</sub></sub>''))
       \<noteq> sanitize ref_lib (asc ''<sub><sub>a</sub></sub>'')
   \<and> sanitize ref_lib (asc ''<![CDATA[a&b]]><![CDATA[x&y<![CDATA[a&b]]>'')
       = asc ''<![CDATA[a&amp;b]]><![CDATA[x&y<![CDATA[a&amp;b]]>''
   \<and> sanitize ref_lib (asc ''<![CDATA[a&amp;b]]><![CDATA[x&y<![CDATA[a&amp;b]]>'')
       = asc ''<![CDATA[a&amp;b]]><![CDATA[x&amp;y<![CDATA[a&amp;b]]>''
   \<and> asc ''<![CDATA[a&amp;b]]><![CDATA[x&amp;y<![CDATA[a&amp;b]]>''
       \<noteq> asc ''<![CDATA[a&amp;b]]><![CDATA[x&y<![CDATA[a&amp;b]]>''"
  by (simp add: ref_run)

text \<open>
  The theorem for C5 at a paragraph with two CDATA blocks, one with a bare ampersand and
  one with an entity: a plain document of two pieces, two blocks and a last piece.
\<close>

theorem sanitize_idempotent_witness:
  "plain_document [(asc ''<P>'', asc ''a & b''), ([], asc ''c &lt; d'')] (asc ''</P>'')
   \<and> cdata_document [(asc ''<P>'', asc ''a & b''), ([], asc ''c &lt; d'')] (asc ''</P>'')
       = asc ''<P><![CDATA[a & b]]><![CDATA[c &lt; d]]></P>''
   \<and> cdata_document (repaired (nd_table ref_lib) [(asc ''<P>'', asc ''a & b''), ([], asc ''c &lt; d'')])
         (asc ''</P>'')
       = asc ''<P><![CDATA[a &amp; b]]><![CDATA[c &lt; d]]></P>''
   \<and> sanitize ref_lib (asc ''<P><![CDATA[a & b]]><![CDATA[c &lt; d]]></P>'')
     = asc ''<P><![CDATA[a &amp; b]]><![CDATA[c &lt; d]]></P>''
   \<and> re_sub m_sup (\<lambda>g. g) (re_sub m_sub (\<lambda>g. g)
         (asc ''<P><![CDATA[a &amp; b]]><![CDATA[c &lt; d]]></P>''))
       = asc ''<P><![CDATA[a &amp; b]]><![CDATA[c &lt; d]]></P>''
   \<and> re_findall m_cdata (asc ''<P><![CDATA[a &amp; b]]><![CDATA[c &lt; d]]></P>'')
       = [asc ''a &amp; b'', asc ''c &lt; d'']
   \<and> map (fix_amp (nd_table ref_lib))
         (re_findall m_cdata (re_sub m_sup (\<lambda>g. g) (re_sub m_sub (\<lambda>g. g)
            (asc ''<P><![CDATA[a & b]]><![CDATA[c &lt; d]]></P>''))))
       = [asc ''a &amp; b'', asc ''c &lt; d'']
   \<and> sanitize ref_lib (asc ''<P><![CDATA[a &amp; b]]><![CDATA[c &lt; d]]></P>'')
       = asc ''<P><![CDATA[a &amp; b]]><![CDATA[c &lt; d]]></P>''
   \<and> entity_ahead (nd_table ref_lib) (asc ''lt; d'')
   \<and> fix_amp (nd_table ref_lib) (38 # asc ''lt; d'') = 38 # fix_amp (nd_table ref_lib) (asc ''lt; d'')"
proof -
  let ?s = "asc ''<P><![CDATA[a & b]]><![CDATA[c &lt; d]]></P>''"
  let ?t = "asc ''<P><![CDATA[a &amp; b]]><![CDATA[c &lt; d]]></P>''"
  let ?segs = "[(asc ''<P>'', asc ''a & b''), ([], asc ''c &lt; d'')]"
  let ?rest = "asc ''</P>''"
  have p: "plain_document ?segs ?rest"
    by (simp add: plain_document_def plain_def plain_block_def asc_def)
  have d: "cdata_document ?segs ?rest = ?s"
    by (simp add: cdata_open_def cdata_close_def asc_def)
  have e: "entity_ahead (nd_table ref_lib) (asc ''lt; d'')" by (simp add: ref_run)
  have rp: "cdata_document (repaired (nd_table ref_lib) ?segs) ?rest = ?t"
    by (simp add: repaired_def ref_run)
  have u: "re_sub m_sup (\<lambda>g. g) (re_sub m_sub (\<lambda>g. g) ?t) = ?t" by (simp add: ref_run)
  have f: "re_findall m_cdata ?t = [asc ''a &amp; b'', asc ''c &lt; d'']" by (simp add: ref_run)
  have m: "map (fix_amp (nd_table ref_lib))
      (re_findall m_cdata (re_sub m_sup (\<lambda>g. g) (re_sub m_sub (\<lambda>g. g) ?s)))
      = [asc ''a &amp; b'', asc ''c &lt; d'']"
    by (simp add: ref_run)
  note t = sanitize_idempotent_when_repaired
    [of ref_lib ?s ?segs ?rest "asc ''a & b''" "asc ''lt; d''"]
  from t p have st: "sanitize ref_lib ?s = ?t" unfolding d rp by blast
  have h1: "re_sub m_sup (\<lambda>g. g) (re_sub m_sub (\<lambda>g. g) (sanitize ref_lib ?s))
      = sanitize ref_lib ?s"
    unfolding st by (rule u)
  have h2: "re_findall m_cdata (sanitize ref_lib ?s)
      = map (fix_amp (nd_table ref_lib))
          (re_findall m_cdata (re_sub m_sup (\<lambda>g. g) (re_sub m_sub (\<lambda>g. g) ?s)))"
    unfolding st f m by (rule refl)
  from t h1 h2 e
  have "sanitize ref_lib (sanitize ref_lib ?s) = sanitize ref_lib ?s"
    and "fix_amp (nd_table ref_lib) (38 # asc ''lt; d'') = 38 # fix_amp (nd_table ref_lib) (asc ''lt; d'')"
    by blast+
  with p d rp st u f m e show ?thesis by simp
qed

text \<open>
  C6 fails as stated: the ampersand stands outside every CDATA block, the sanitizer leaves
  it, and the first parse fails.
\<close>

theorem c6_not_structured:
  "structured ref_lib (paragraph_text ref_lib) (sanitize ref_lib c6_input)
     = Inl (ParseError (asc ''not well-formed''))
   \<and> map_option doc_type (parse_xml_doc ref_lib c6_input) \<noteq> Some (asc ''structured'')"
  by (simp add: c6_run c6_sanitize c6_first_parse structured_def c6_result_def asc_def)

text \<open>
  C6, as the code has it. The sanitizer leaves the string as it is and the first parse
  fails; tag repair escapes the ampersand, the second parse succeeds, and the text is
  the header with \<open>T\<close>, an empty line, the article line with \<open>A\<close> and the paragraph
  with the ampersand decoded. The type is the empty string: the root declares none.
\<close>

theorem c6_recovered_text:
  "sanitize ref_lib c6_input = c6_input
   \<and> fromstring ref_lib c6_input = Inl (ParseError (asc ''not well-formed''))
   \<and> repair ref_lib c6_input = c6_repaired
   \<and> fromstring ref_lib c6_repaired = Inr c6_tree
   \<and> map_option doc_text (parse_xml_doc ref_lib c6_input)
       = Some ([12304] @ asc ''T'' @ [12305, 10, 10, 9632, 32] @ asc ''A'' @ [10]
               @ asc ''- hello & world'')
   \<and> map_option doc_type (parse_xml_doc ref_lib c6_input) = Some []"
  by (simp add: c6_run c6_sanitize c6_first_parse c6_repair c6_second_parse c6_result_def
      c6_text_def)


text \<open>
  The theorem for C10 at the document of C6 and a copy with another section title.
\<close>

theorem render_ignores_section_titles_witness:
  "doc_title (c6_result\<lparr>doc_sections := Some (map (sec_title_update (\<lambda>t. asc ''S'')) c6_sections)\<rparr>)
     = doc_title c6_result
   \<and> map_option (map sec_articles)
        (doc_sections (c6_result\<lparr>doc_sections := Some (map (sec_title_update (\<lambda>t. asc ''S'')) c6_sections)\<rparr>))
     = map_option (map sec_articles) (doc_sections c6_result)
   \<and> map sec_title (map (sec_title_update (\<lambda>t. asc ''S'')) c6_sections) \<noteq> map sec_title c6_sections
   \<and> extract_text_from_parsed_doc
        (c6_result\<lparr>doc_sections := Some (map (sec_title_update (\<lambda>t. asc ''S'')) c6_sections)\<rparr>)
     = extract_text_from_parsed_doc c6_result"
proof -
  let ?d = "c6_result\<lparr>doc_sections := Some (map (sec_title_update (\<lambda>t. asc ''S'')) c6_sections)\<rparr>"
  have t: "doc_title ?d = doc_title c6_result" by simp
  have a: "map_option (map sec_articles) (doc_sections ?d)
      = map_option (map sec_articles) (doc_sections c6_result)"
    by (simp add: c6_result_def c6_sections_def)
  have n: "map sec_title (map (sec_title_update (\<lambda>t. asc ''S'')) c6_sections) \<noteq> map sec_title c6_sections"
    by (simp add: c6_sections_def asc_def)
  from render_ignores_section_titles [OF t a] t a n show ?thesis by simp
qed



end
